theory Spec2Isabelle
  imports Main "HOL-Library.Sublist" "HOL-Library.Char_ord" "HOL-Library.List_Lexorder"
begin

section \<open>Shared vocabulary of the two scripts\<close>

text \<open>
  Exceptions are values. \<open>OtherException\<close> stands for any further subclass of Python's
  \<open>Exception\<close> that a library call may raise.
\<close>

datatype exn =
    CalledProcessError
  | FileNotFoundError
  | JSONDecodeError
  | ValueError
  | OverflowError
  | HttpError
  | TokenNotFound
  | OtherException string

text \<open>
  Both scripts skip a file whose name contains one of the two marker substrings
  (\<open>generate-feed.py\<close> line 108, \<open>sync-audio-to-drive.py\<close> line 131). Python's
  \<open>in\<close> on strings is the contiguous-substring test.
\<close>

definition is_temp_or_chunk :: "string \<Rightarrow> bool" where
  "is_temp_or_chunk name \<longleftrightarrow> sublist ''.temp.'' name \<or> sublist ''.chunk'' name"

text \<open>The saved mapping \<open>drive-urls.json\<close>: a JSON object from file names to URLs.\<close>

type_synonym url_map = "string \<rightharpoonup> string"

section \<open>Formatting integers\<close>

text \<open>Python's \<open>str\<close> on a non-negative integer: its decimal digits.\<close>

definition digit_char :: "nat \<Rightarrow> char" where
  "digit_char n = ''0123456789'' ! (n mod 10)"

fun str_nat :: "nat \<Rightarrow> string" where
  "str_nat n = (if n < 10 then [digit_char n] else str_nat (n div 10) @ [digit_char (n mod 10)])"

declare str_nat.simps [simp del]

definition str_int :: "int \<Rightarrow> string" where
  "str_int i = (if i < 0 then CHR ''-'' # str_nat (nat (- i)) else str_nat (nat i))"

text \<open>
  The format specification \<open>{:0wd}\<close>: the sign first, then zeros up to the width \<open>w\<close>,
  then the digits. A number that needs more than \<open>w\<close> characters is printed in full.
\<close>

definition zero_pad :: "nat \<Rightarrow> int \<Rightarrow> string" where
  "zero_pad w i =
     (let sgn = (if i < 0 then ''-'' else ''''); ds = str_nat (nat \<bar>i\<bar>)
      in sgn @ replicate (w - (length sgn + length ds)) CHR ''0'' @ ds)"

text \<open>Reading a field back: the value of a string of decimal digits.\<close>

definition digit_val :: "char \<Rightarrow> nat option" where
  "digit_val c = (if c \<in> set ''0123456789'' then Some (of_char c - 48) else None)"

fun read_nat_acc :: "nat \<Rightarrow> string \<Rightarrow> nat option" where
  "read_nat_acc acc [] = Some acc"
| "read_nat_acc acc (c # cs) =
     (case digit_val c of None \<Rightarrow> None | Some d \<Rightarrow> read_nat_acc (10 * acc + d) cs)"

definition read_nat :: "string \<Rightarrow> nat option" where
  "read_nat s = (if s = [] then None else read_nat_acc 0 s)"

section \<open>The feed generator (\<open>generate-feed.py\<close>)\<close>

subsection \<open>Metadata extraction\<close>

text \<open>
  What \<open>ffprobe -print_format json -show_format\<close> prints, once parsed: an object
  whose \<open>format\<close> member, when present, holds the optional members \<open>tags\<close>,
  \<open>duration\<close> and \<open>size\<close>; ffprobe writes every leaf as a JSON string.
\<close>

record format_info =
  tags :: "(string \<rightharpoonup> string) option"
  fi_duration :: "string option"
  fi_size :: "string option"

record probe_data =
  format :: "format_info option"

text \<open>
  The environment of one run of the generator. \<open>ffprobe\<close> is the outcome of lines 27-34
  for a file name: the subprocess call with \<open>check=True\<close> followed by \<open>json.loads\<close>,
  \<open>Inl\<close> when either raises. \<open>int_of_float_str\<close> is Python's
  \<open>int(float(s))\<close> and \<open>int_of_str\<close> is \<open>int(s)\<close> on a string; both raise on text
  that is not a number. \<open>utcoffset\<close> gives the host's local offset from UTC in seconds
  at an instant.
\<close>

record gen_env =
  ffprobe :: "string \<Rightarrow> exn + probe_data"
  int_of_float_str :: "string \<Rightarrow> exn + int"
  int_of_str :: "string \<Rightarrow> exn + int"
  utcoffset :: "int \<Rightarrow> int"

record metadata =
  md_title :: string
  md_artist :: string
  md_album :: string
  md_comment :: string
  md_duration :: int
  md_size :: int

text \<open>\<open>Path.stem\<close>: the name without its last suffix.\<close>

definition stem :: "string \<Rightarrow> string" where
  "stem name =
     (let k = length (takeWhile (\<lambda>c. c \<noteq> CHR ''.'') (rev name))
      in if k < length name \<and> 0 < length name - Suc k \<and> 0 < k
         then take (length name - Suc k) name else name)"

definition dict_get :: "('k \<rightharpoonup> 'v) \<Rightarrow> 'k \<Rightarrow> 'v \<Rightarrow> 'v" where
  "dict_get d k dflt = (case d k of Some v \<Rightarrow> v | None \<Rightarrow> dflt)"

text \<open>
  Lines 43 and 44: \<open>int(float(format_info.get('duration', 0)))\<close> and
  \<open>int(format_info.get('size', 0))\<close>; the default \<open>0\<close> converts to \<open>0\<close>.
\<close>

definition duration_field :: "gen_env \<Rightarrow> format_info \<Rightarrow> exn + int" where
  "duration_field env fi =
     (case fi_duration fi of None \<Rightarrow> Inr 0 | Some s \<Rightarrow> int_of_float_str env s)"

definition size_field :: "gen_env \<Rightarrow> format_info \<Rightarrow> exn + int" where
  "size_field env fi =
     (case fi_size fi of None \<Rightarrow> Inr 0 | Some s \<Rightarrow> int_of_str env s)"

definition empty_format :: format_info where
  "empty_format = \<lparr>tags = None, fi_duration = None, fi_size = None\<rparr>"

text \<open>Lines 38-45: the returned dictionary.\<close>

definition build_metadata :: "string \<Rightarrow> (string \<rightharpoonup> string) \<Rightarrow> int \<Rightarrow> int \<Rightarrow> metadata" where
  "build_metadata name tgs dur sz =
     \<lparr>md_title = dict_get tgs ''title'' (stem name),
      md_artist = dict_get tgs ''artist'' ''Jaxon Digital'',
      md_album = dict_get tgs ''album'' ''Project Pivot Strategy'',
      md_comment = dict_get tgs ''comment'' [],
      md_duration = dur,
      md_size = sz\<rparr>"

text \<open>The body of the \<open>try\<close> block, lines 27-45: \<open>Inl\<close> is an exception raised in it.\<close>

definition read_metadata :: "gen_env \<Rightarrow> string \<Rightarrow> exn + metadata" where
  "read_metadata env name =
     (case ffprobe env name of
        Inl e \<Rightarrow> Inl e
      | Inr data \<Rightarrow>
          (let format_info = (case format data of Some fi \<Rightarrow> fi | None \<Rightarrow> empty_format);
               tgs = (case tags format_info of Some t \<Rightarrow> t | None \<Rightarrow> Map.empty)
           in (case duration_field env format_info of
                 Inl e \<Rightarrow> Inl e
               | Inr dur \<Rightarrow>
                   (case size_field env format_info of
                      Inl e \<Rightarrow> Inl e
                    | Inr sz \<Rightarrow> Inr (build_metadata name tgs dur sz)))))"

text \<open>\<open>except Exception\<close>: every exception of the body becomes \<open>None\<close>.\<close>

definition get_mp3_metadata :: "gen_env \<Rightarrow> string \<Rightarrow> metadata option" where
  "get_mp3_metadata env name =
     (case read_metadata env name of Inl e \<Rightarrow> None | Inr md \<Rightarrow> Some md)"

subsection \<open>URL resolution\<close>

definition GITHUB_BASE_URL :: string where
  "GITHUB_BASE_URL = ''https://jaxondigital.github.io/jaxon-strategy-feed/audio''"

definition get_audio_url :: "string \<Rightarrow> url_map \<Rightarrow> string" where
  "get_audio_url filename drive_urls =
     (case drive_urls filename of
        Some url \<Rightarrow> url
      | None \<Rightarrow> GITHUB_BASE_URL @ ''/'' @ filename)"

subsection \<open>Publication date\<close>

text \<open>
  \<open>datetime.fromtimestamp(mtime)\<close> without a time zone gives the host's local wall-clock
  fields of the instant; \<open>strftime\<close> prints them. Both are Python's standard library:
  the model computes the proleptic Gregorian date of a day count, and uses the names
  of the C locale. \<open>st_mtime\<close> is taken in whole seconds: the format prints no fraction.
\<close>

record datetime =
  dt_year :: int
  dt_month :: int
  dt_day :: int
  dt_hour :: int
  dt_minute :: int
  dt_second :: int
  dt_weekday :: int

definition civil_from_days :: "int \<Rightarrow> int \<times> int \<times> int" where
  "civil_from_days days =
     (let z = days + 719468;
          era = z div 146097;
          doe = z mod 146097;
          yoe = (doe - doe div 1460 + doe div 36524 - doe div 146096) div 365;
          doy = doe - (365 * yoe + yoe div 4 - yoe div 100);
          mp = (5 * doy + 2) div 153;
          d = doy - (153 * mp + 2) div 5 + 1;
          m = (if mp < 10 then mp + 3 else mp - 9);
          y = yoe + era * 400 + (if m \<le> 2 then 1 else 0)
      in (y, m, d))"

text \<open>
  The fields of the local time of an instant \<open>t\<close> (seconds since the epoch); Monday is
  weekday 0. Python's \<open>datetime\<close> holds the years 1 to 9999 and raises beyond them.
  Outside Windows \<open>fromtimestamp\<close> also builds the local time of the instant one day
  earlier, to detect a repeated hour, and raises when that is out of range. The model
  gives \<open>ValueError\<close> for every instant out of range; for an instant that the C library
  cannot convert at all Python raises \<open>OverflowError\<close> or \<open>OSError\<close> instead. The rounding
  of a fractional \<open>st_mtime\<close> to the microsecond is not modelled.
\<close>

definition local_year :: "gen_env \<Rightarrow> int \<Rightarrow> int" where
  "local_year env t = fst (civil_from_days ((t + utcoffset env t) div 86400))"

definition fromtimestamp :: "gen_env \<Rightarrow> int \<Rightarrow> exn + datetime" where
  "fromtimestamp env t =
     (let local = t + utcoffset env t;
          days = local div 86400;
          sod = local mod 86400;
          (y, m, d) = civil_from_days days;
          probe = local_year env (t - 86400)
      in if y < 1 \<or> 9999 < y \<or> probe < 1 \<or> 9999 < probe then Inl ValueError
         else Inr \<lparr>dt_year = y, dt_month = m, dt_day = d,
                   dt_hour = sod div 3600, dt_minute = sod mod 3600 div 60,
                   dt_second = sod mod 60, dt_weekday = (days + 3) mod 7\<rparr>)"

definition day_abbr :: "string list" where
  "day_abbr = [''Mon'', ''Tue'', ''Wed'', ''Thu'', ''Fri'', ''Sat'', ''Sun'']"

definition month_abbr :: "string list" where
  "month_abbr = [''Jan'', ''Feb'', ''Mar'', ''Apr'', ''May'', ''Jun'',
                 ''Jul'', ''Aug'', ''Sep'', ''Oct'', ''Nov'', ''Dec'']"

text \<open>
  \<open>strftime('%a, %d %b %Y %H:%M:%S %z')\<close>. The datetime carries no time zone, so
  \<open>%z\<close> prints nothing and the text ends with the space before it. The year is
  printed with four digits, as Python documents \<open>%Y\<close>; a C library may print fewer
  for a year below 1000.
\<close>

definition strftime :: "datetime \<Rightarrow> string" where
  "strftime dt =
     day_abbr ! nat (dt_weekday dt) @ '', '' @ zero_pad 2 (dt_day dt) @ '' '' @
     month_abbr ! nat (dt_month dt - 1) @ '' '' @ zero_pad 4 (dt_year dt) @ '' '' @
     zero_pad 2 (dt_hour dt) @ '':'' @ zero_pad 2 (dt_minute dt) @ '':'' @
     zero_pad 2 (dt_second dt) @ '' '' @ []"

text \<open>Lines 120-123.\<close>

definition pub_date_of :: "gen_env \<Rightarrow> int \<Rightarrow> exn + string" where
  "pub_date_of env mtime =
     (case fromtimestamp env mtime of
        Inl e \<Rightarrow> Inl e
      | Inr dt \<Rightarrow>
          (let pub_date = strftime dt
           in Inr (if \<not> suffix '' +0000'' pub_date then pub_date @ '' +0000'' else pub_date)))"

subsection \<open>Episodes\<close>

text \<open>An entry of the audio directory as the generator reads it: its name and \<open>st_mtime\<close>.\<close>

record audio_file =
  path_name :: string
  st_mtime :: int

record episode =
  ep_filename :: string
  ep_title :: string
  ep_artist :: string
  ep_description :: string
  ep_audio_url :: string
  ep_pub_date :: string
  ep_duration :: int
  ep_size :: int

text \<open>Lines 125-134; \<open>x or y\<close> on strings takes \<open>y\<close> when \<open>x\<close> is empty.\<close>

definition make_episode :: "string \<Rightarrow> metadata \<Rightarrow> string \<Rightarrow> string \<Rightarrow> episode" where
  "make_episode name md audio_url pub_date =
     \<lparr>ep_filename = name,
      ep_title = md_title md,
      ep_artist = md_artist md,
      ep_description =
        (if md_comment md \<noteq> [] then md_comment md
         else ''Strategy document - '' @ md_title md),
      ep_audio_url = audio_url,
      ep_pub_date = pub_date,
      ep_duration = md_duration md,
      ep_size = md_size md\<rparr>"

text \<open>
  The loop of lines 106-134 over the sorted files, with the list \<open>episodes\<close> it appends
  to. An exception of \<open>fromtimestamp\<close> is not caught and ends the run.
\<close>

fun collect_episodes ::
  "gen_env \<Rightarrow> url_map \<Rightarrow> audio_file list \<Rightarrow> episode list \<Rightarrow> exn + episode list" where
  "collect_episodes env drive_urls [] episodes = Inr episodes"
| "collect_episodes env drive_urls (mp3_path # rest) episodes =
     (if is_temp_or_chunk (path_name mp3_path)
      then collect_episodes env drive_urls rest episodes
      else (case get_mp3_metadata env (path_name mp3_path) of
              None \<Rightarrow> collect_episodes env drive_urls rest episodes
            | Some md \<Rightarrow>
                (let audio_url = get_audio_url (path_name mp3_path) drive_urls
                 in (case pub_date_of env (st_mtime mp3_path) of
                       Inl e \<Rightarrow> Inl e
                     | Inr pub_date \<Rightarrow>
                         collect_episodes env drive_urls rest
                           (episodes @ [make_episode (path_name mp3_path) md audio_url pub_date])))))"

text \<open>
  \<open>list.sort(key=k, reverse=True)\<close>: CPython reverses the list, sorts it stably in
  ascending order of the key, and reverses the result, so that equal keys keep their
  order. Strings compare lexicographically, character by character.
\<close>

definition sort_reverse :: "('a \<Rightarrow> 'k::linorder) \<Rightarrow> 'a list \<Rightarrow> 'a list" where
  "sort_reverse k xs = rev (sort_key k (rev xs))"

text \<open>
  Line 100, \<open>sorted(AUDIO_DIR.glob('*.mp3'))\<close>: paths of one directory compare by their
  names. The argument is what \<open>glob\<close> returned, in the order of the operating system.
\<close>

definition sorted_paths :: "audio_file list \<Rightarrow> audio_file list" where
  "sorted_paths files = sort_key path_name files"

definition build_episodes :: "gen_env \<Rightarrow> url_map \<Rightarrow> audio_file list \<Rightarrow> exn + episode list" where
  "build_episodes env drive_urls files =
     (case collect_episodes env drive_urls (sorted_paths files) [] of
        Inl e \<Rightarrow> Inl e
      | Inr episodes \<Rightarrow> Inr (sort_reverse ep_pub_date episodes))"

subsection \<open>The feed document\<close>

text \<open>An element of \<open>xml.etree.ElementTree\<close>: tag, attributes, text, children.\<close>

datatype element =
  Element (tag: string) (attrib: "(string \<times> string) list") (text_of: "string option")
    (children: "element list")

definition ITUNES :: string where
  "ITUNES = ''{http://www.itunes.com/dtds/podcast-1.0.dtd}''"

definition ATOM :: string where
  "ATOM = ''{http://www.w3.org/2005/Atom}''"

definition text_element :: "string \<Rightarrow> string \<Rightarrow> element" where
  "text_element t txt = Element t [] (Some txt) []"

text \<open>Lines 154-157.\<close>

definition duration_str :: "int \<Rightarrow> string" where
  "duration_str duration =
     (let hours = duration div 3600;
          minutes = (duration mod 3600) div 60;
          seconds = duration mod 60
      in zero_pad 2 hours @ '':'' @ zero_pad 2 minutes @ '':'' @ zero_pad 2 seconds)"

text \<open>Lines 153-158: the duration element of an item, when there is one.\<close>

definition duration_element :: "int \<Rightarrow> element list" where
  "duration_element duration =
     (if duration > 0 then [text_element (ITUNES @ ''duration'') (duration_str duration)]
      else [])"

text \<open>Lines 141-160.\<close>

definition episode_item :: "episode \<Rightarrow> element" where
  "episode_item ep =
     Element ''item'' [] None
       ([text_element ''title'' (ep_title ep),
         text_element ''description'' (ep_description ep),
         text_element ''pubDate'' (ep_pub_date ep),
         text_element ''guid'' (ep_audio_url ep),
         Element ''enclosure''
           [(''url'', ep_audio_url ep), (''type'', ''audio/mpeg''),
            (''length'', str_int (ep_size ep))] None []]
        @ duration_element (ep_duration ep)
        @ [text_element (ITUNES @ ''author'') (ep_artist ep)])"

text \<open>Lines 79-97: the fixed children of the channel.\<close>

definition channel_header :: "element list" where
  "channel_header =
     [text_element ''title'' ''Jaxon Strategy Feed'',
      text_element ''description''
        (''Strategy documents for Jaxon Digital'' @ [CHR 0x27] @
         ''s transformation from Optimizely '' @
         ''services company to AI Operations Platform SaaS. Includes platform vision, '' @
         ''agent catalog, roadmaps, and partnership materials.''),
      text_element ''language'' ''en-us'',
      text_element ''link'' ''https://github.com/JaxonDigital/jaxon-strategy-feed'',
      text_element (ITUNES @ ''author'') ''Jaxon Digital'',
      Element (ITUNES @ ''category'') [(''text'', ''Business'')] None [],
      text_element (ITUNES @ ''explicit'') ''no'',
      Element (ATOM @ ''link'')
        [(''href'', ''https://jaxondigital.github.io/jaxon-strategy-feed/feed.rss''),
         (''rel'', ''self''), (''type'', ''application/rss+xml'')] None []]"

text \<open>
  \<open>load_drive_urls\<close>, lines 50-55. The argument is the mapping file: \<open>None\<close> when it
  does not exist, otherwise what \<open>json.load\<close> gives, \<open>Inl\<close> when it raises.
\<close>

definition load_drive_urls :: "(exn + url_map) option \<Rightarrow> exn + url_map" where
  "load_drive_urls mapping_file =
     (case mapping_file of None \<Rightarrow> Inr Map.empty | Some r \<Rightarrow> r)"

text \<open>
  \<open>generate_rss\<close> up to the element tree it serialises: the mapping is loaded first,
  then the files are read, and the items follow the sorted episodes. Lines 162-172, which
  serialise the tree, parse it again to indent it and write the file, are not modelled:
  a run that raises there (a control character in a tag value makes the parser raise)
  is a returned tree here.
\<close>

definition feed_document :: "episode list \<Rightarrow> element" where
  "feed_document episodes =
     Element ''rss''
       [(''version'', ''2.0''),
        (''xmlns:itunes'', ''http://www.itunes.com/dtds/podcast-1.0.dtd''),
        (''xmlns:atom'', ''http://www.w3.org/2005/Atom'')] None
       [Element ''channel'' [] None (channel_header @ map episode_item episodes)]"

definition generate_rss ::
  "gen_env \<Rightarrow> (exn + url_map) option \<Rightarrow> audio_file list \<Rightarrow> exn + element" where
  "generate_rss env mapping_file files =
     (case load_drive_urls mapping_file of
        Inl e \<Rightarrow> Inl e
      | Inr drive_urls \<Rightarrow>
          (case build_episodes env drive_urls files of
             Inl e \<Rightarrow> Inl e
           | Inr episodes \<Rightarrow> Inr (feed_document episodes)))"

text \<open>The items of a feed document, in document order.\<close>

definition feed_items :: "element \<Rightarrow> element list" where
  "feed_items rss = filter (\<lambda>e. tag e = ''item'') (concat (map children (children rss)))"

definition child_text :: "string \<Rightarrow> element \<Rightarrow> string option" where
  "child_text t e =
     (case filter (\<lambda>c. tag c = t) (children e) of [] \<Rightarrow> None | c # _ \<Rightarrow> text_of c)"

section \<open>The sync agent (\<open>sync-audio-to-drive.py\<close>)\<close>

text \<open>
  The calls the agent makes on the Drive service that change the remote store, in the
  order made: \<open>files().create\<close> with the name of the file, and \<open>permissions().create\<close>
  with the file id, the grantee type and the role.
\<close>

datatype call =
    FilesCreate string
  | PermissionsCreate string string string

text \<open>The lines the agent prints for a file (lines 142-154).\<close>

datatype message =
    AlreadyOnDrive string
  | AlreadyMapped string
  | Uploading string
  | Uploaded string
  | UploadError exn

text \<open>One page of \<open>files().list\<close>: its files as (id, name), and the next page token.\<close>

record page =
  page_files :: "(string \<times> string) list option"
  nextPageToken :: "string option"

text \<open>
  The environment of one run of the agent. \<open>token_file\<close> is \<open>None\<close> when the token file
  is missing; otherwise it tells whether reading it, refreshing the credentials and
  building the client raised. The service answers \<open>files().list\<close> for a page token.
  Its answers to the two writing calls may depend on the calls made before; a
  successful \<open>files().create\<close> answers the id of the new file. \<open>media_file\<close> is the
  outcome of opening the local file for upload (\<open>MediaFileUpload\<close>).
\<close>

record sync_env =
  token_file :: "exn option option"
  files_list :: "string option \<Rightarrow> exn + page"
  media_file :: "string \<Rightarrow> exn option"
  files_create :: "call list \<Rightarrow> string \<Rightarrow> exn + string"
  permissions_create :: "call list \<Rightarrow> string \<Rightarrow> exn option"

definition get_drive_service :: "sync_env \<Rightarrow> exn + unit" where
  "get_drive_service env =
     (case token_file env of
        None \<Rightarrow> Inl TokenNotFound
      | Some None \<Rightarrow> Inr ()
      | Some (Some e) \<Rightarrow> Inl e)"

definition download_link :: "string \<Rightarrow> string" where
  "download_link file_id = ''https://drive.google.com/uc?export=download&id='' @ file_id"

text \<open>Lines 61-65: the files of one page, a later file of the same name replacing an earlier.\<close>

definition add_page_files :: "(string \<times> string) list \<Rightarrow> url_map \<Rightarrow> url_map" where
  "add_page_files fs files = fold (\<lambda>(file_id, n) m. m(n \<mapsto> download_link file_id)) fs files"

text \<open>
  \<open>list_drive_files\<close>, the loop of lines 52-69 from a page token on. It ends at the first
  page without a token (or with an empty one); with a service that always answers
  a token it does not return, which is the value \<open>None\<close>.
\<close>

partial_function (option) list_drive_files_from ::
  "sync_env \<Rightarrow> url_map \<Rightarrow> string option \<Rightarrow> (exn + url_map) option" where
  "list_drive_files_from env files page_token =
     (case files_list env page_token of
        Inl e \<Rightarrow> Some (Inl e)
      | Inr response \<Rightarrow>
          (let files' = add_page_files (case page_files response of None \<Rightarrow> [] | Some fs \<Rightarrow> fs) files
           in (case nextPageToken response of
                 None \<Rightarrow> Some (Inr files')
               | Some t \<Rightarrow>
                   if t = [] then Some (Inr files')
                   else list_drive_files_from env files' (Some t))))"

definition list_drive_files :: "sync_env \<Rightarrow> (exn + url_map) option" where
  "list_drive_files env = list_drive_files_from env Map.empty None"

text \<open>
  \<open>upload_file_to_drive\<close>, lines 73-104, with the calls made so far: it returns the
  download link or the exception raised, and the calls extended by its own.
\<close>

definition upload_file_to_drive ::
  "sync_env \<Rightarrow> call list \<Rightarrow> string \<Rightarrow> (exn + string) \<times> call list" where
  "upload_file_to_drive env calls file_name =
     (case media_file env file_name of
        Some e \<Rightarrow> (Inl e, calls)
      | None \<Rightarrow>
          (let calls1 = calls @ [FilesCreate file_name]
           in (case files_create env calls file_name of
                 Inl e \<Rightarrow> (Inl e, calls1)
               | Inr file_id \<Rightarrow>
                   (let calls2 = calls1 @ [PermissionsCreate file_id ''anyone'' ''reader'']
                    in (case permissions_create env calls1 file_id of
                          Some e \<Rightarrow> (Inl e, calls2)
                        | None \<Rightarrow> (Inr (download_link file_id), calls2))))))"

text \<open>The variables of \<open>main\<close> that its loop changes, the calls made and the lines printed.\<close>

record sync_state =
  drive_urls :: url_map
  uploaded_count :: nat
  calls :: "call list"
  printed :: "message list"

text \<open>The body of the loop, lines 139-154, for one file name.\<close>

definition sync_file :: "sync_env \<Rightarrow> url_map \<Rightarrow> sync_state \<Rightarrow> string \<Rightarrow> sync_state" where
  "sync_file env existing_files s filename =
     (case existing_files filename of
        Some link \<Rightarrow>
          s\<lparr>drive_urls := (drive_urls s)(filename \<mapsto> link),
            printed := printed s @ [AlreadyOnDrive filename]\<rparr>
      | None \<Rightarrow>
          (case drive_urls s filename of
             Some u \<Rightarrow> s\<lparr>printed := printed s @ [AlreadyMapped filename]\<rparr>
           | None \<Rightarrow>
               (case upload_file_to_drive env (calls s) filename of
                  (Inr link, calls') \<Rightarrow>
                    s\<lparr>drive_urls := (drive_urls s)(filename \<mapsto> link),
                      uploaded_count := uploaded_count s + 1,
                      calls := calls',
                      printed := printed s @ [Uploading filename, Uploaded link]\<rparr>
                | (Inl e, calls') \<Rightarrow>
                    s\<lparr>calls := calls',
                      printed := printed s @ [Uploading filename, UploadError e]\<rparr>)))"

text \<open>Lines 129-132: the local files that are neither temporary nor chunks.\<close>

definition local_mp3s :: "string list \<Rightarrow> string list" where
  "local_mp3s names = filter (\<lambda>n. \<not> sublist ''.temp.'' n \<and> \<not> sublist ''.chunk'' n) names"

text \<open>The loop of lines 137-154.\<close>

definition sync_files :: "sync_env \<Rightarrow> url_map \<Rightarrow> sync_state \<Rightarrow> string list \<Rightarrow> sync_state" where
  "sync_files env existing_files s names = fold (\<lambda>n st. sync_file env existing_files st n) names s"

text \<open>
  \<open>main\<close>: the service, the remote listing, the saved mapping, the loop, and the save.
  The arguments are the mapping file (as for \<open>load_drive_urls\<close>) and the names that
  \<open>glob('*.mp3')\<close> returns. \<open>Some (Inr s)\<close> is a run that reaches the save of line 157,
  which writes \<open>drive_urls s\<close>; \<open>Some (Inl e)\<close> is a run ended by an exception.
\<close>

definition main ::
  "sync_env \<Rightarrow> (exn + url_map) option \<Rightarrow> string list \<Rightarrow> (exn + sync_state) option" where
  "main env mapping_file names =
     (case get_drive_service env of
        Inl e \<Rightarrow> Some (Inl e)
      | Inr _ \<Rightarrow>
          (case list_drive_files env of
             None \<Rightarrow> None
           | Some (Inl e) \<Rightarrow> Some (Inl e)
           | Some (Inr existing_files) \<Rightarrow>
               (case load_drive_urls mapping_file of
                  Inl e \<Rightarrow> Some (Inl e)
                | Inr loaded \<Rightarrow>
                    Some (Inr (sync_files env existing_files
                      \<lparr>drive_urls = loaded, uploaded_count = 0, calls = [], printed = []\<rparr>
                      (local_mp3s names))))))"

section \<open>Reading a rendered duration\<close>

text \<open>
  The reading of a text \<open>HH:MM:SS\<close>, used to state what the rendered duration denotes:
  the text is split at the colons as Python's \<open>split(':')\<close> does, and every field is
  read as a decimal number.
\<close>

fun split_on :: "char \<Rightarrow> string \<Rightarrow> string list" where
  "split_on c [] = [[]]"
| "split_on c (x # xs) =
     (if x = c then [] # split_on c xs
      else (case split_on c xs of [] \<Rightarrow> [[x]] | w # ws \<Rightarrow> (x # w) # ws))"

definition read_hms :: "string \<Rightarrow> (nat \<times> nat \<times> nat) option" where
  "read_hms s =
     (case map read_nat (split_on CHR '':'' s) of
        [Some h, Some m, Some sec] \<Rightarrow> Some (h, m, sec)
      | _ \<Rightarrow> None)"

definition hours_field :: "string \<Rightarrow> string" where
  "hours_field s = takeWhile (\<lambda>c. c \<noteq> CHR '':'') s"

definition is_digit :: "char \<Rightarrow> bool" where
  "is_digit c \<longleftrightarrow> c \<in> set ''0123456789''"

definition is_hms :: "string \<Rightarrow> bool" where
  "is_hms s =
     (case split_on CHR '':'' s of
        [hh, mm, ss] \<Rightarrow>
          2 \<le> length hh \<and> length mm = 2 \<and> length ss = 2 \<and> list_all is_digit (hh @ mm @ ss)
      | _ \<Rightarrow> False)"

section \<open>Concrete environments\<close>

text \<open>
  A host on UTC where \<open>ffprobe\<close> fails on one file and reports a title, a duration and a
  size on every other.
\<close>

definition example_gen_env :: gen_env where
  "example_gen_env =
     \<lparr>ffprobe = (\<lambda>n. if n = ''broken.mp3'' then Inl CalledProcessError
                      else Inr \<lparr>format = Some \<lparr>tags = Some [''title'' \<mapsto> ''Vision''],
                                  fi_duration = Some ''3725.4'', fi_size = Some ''1000''\<rparr>\<rparr>),
      int_of_float_str = (\<lambda>s. if s = ''3725.4'' then Inr 3725 else Inl ValueError),
      int_of_str = (\<lambda>s. if s = ''1000'' then Inr 1000 else Inl ValueError),
      utcoffset = (\<lambda>t. 0)\<rparr>"

text \<open>
  A Drive folder that lists one file on a single page, and a service on which every
  upload succeeds.
\<close>

definition example_sync_env :: sync_env where
  "example_sync_env =
     \<lparr>token_file = Some None,
      files_list = (\<lambda>t. Inr \<lparr>page_files = Some [(''ID1'', ''a.mp3'')], nextPageToken = None\<rparr>),
      media_file = (\<lambda>n. None),
      files_create = (\<lambda>cs n. Inr (''ID-'' @ n)),
      permissions_create = (\<lambda>cs fid. None)\<rparr>"

text \<open>The same folder behind a service that refuses every \<open>files().create\<close>.\<close>

definition failing_sync_env :: sync_env where
  "failing_sync_env = example_sync_env\<lparr>files_create := (\<lambda>cs n. Inl HttpError)\<rparr>"

text \<open>
  The same folder after a run has uploaded \<open>b.mp3\<close>: the listing shows the new file under
  the id that \<open>files().create\<close> answered.
\<close>

definition grown_sync_env :: sync_env where
  "grown_sync_env =
     example_sync_env\<lparr>files_list :=
       (\<lambda>t. Inr \<lparr>page_files = Some [(''ID1'', ''a.mp3''), (''ID-b.mp3'', ''b.mp3'')],
                  nextPageToken = None\<rparr>)\<rparr>"

section \<open>Files that contribute no episode\<close>

text \<open>The two tests of the loop, lines 108 and 114, that end the processing of a file.\<close>

definition skipped :: "gen_env \<Rightarrow> audio_file \<Rightarrow> bool" where
  "skipped env f \<longleftrightarrow>
     is_temp_or_chunk (path_name f) \<or> get_mp3_metadata env (path_name f) = None"

section \<open>Files that a run leaves alone\<close>

text \<open>
  A name is settled in a mapping, for a remote listing, when the loop has nothing to
  change for it: the mapping holds the listed link, or the name is not listed and is
  a key of the mapping.
\<close>

definition settled :: "url_map \<Rightarrow> url_map \<Rightarrow> string \<Rightarrow> bool" where
  "settled ex m n \<longleftrightarrow> (case ex n of Some link \<Rightarrow> m n = Some link | None \<Rightarrow> m n \<noteq> None)"

section \<open>The loop at one file\<close>

text \<open>
  The state of the loop of \<open>main\<close> when it reaches the file \<open>n\<close>: the local files before
  \<open>n\<close> have been processed, from the loaded mapping.
\<close>

definition state_before ::
  "sync_env \<Rightarrow> url_map \<Rightarrow> url_map \<Rightarrow> string list \<Rightarrow> string \<Rightarrow> sync_state" where
  "state_before env ex loaded names n =
     sync_files env ex \<lparr>drive_urls = loaded, uploaded_count = 0, calls = [], printed = []\<rparr>
       (takeWhile (\<lambda>m. m \<noteq> n) (local_mp3s names))"

text \<open>The lines printed about a file that tell which branch was taken for it.\<close>

definition names_in :: "message list \<Rightarrow> string \<Rightarrow> message set" where
  "names_in ms k = set ms \<inter> {AlreadyOnDrive k, AlreadyMapped k, Uploading k}"

section \<open>Properties of the number formats\<close>

lemma mod10_cases: "(n::nat) mod 10 \<in> {0,1,2,3,4,5,6,7,8,9}"
  by (simp; presburger)

lemma digit_char_in: "digit_char n \<in> set ''0123456789''"
  using mod10_cases [of n] unfolding digit_char_def by (elim insertE; simp)

lemma digit_val_digit_char: "digit_val (digit_char n) = Some (n mod 10)"
  using mod10_cases [of n] unfolding digit_char_def digit_val_def by (elim insertE; simp)

lemma str_nat_digits: "set (str_nat n) \<subseteq> set ''0123456789''"
proof (induction n rule: str_nat.induct)
  case (1 n)
  show ?case
  proof (cases "n < 10")
    case True
    then show ?thesis using digit_char_in [of n] by (subst str_nat.simps) simp
  next
    case False
    then show ?thesis using 1 digit_char_in [of "n mod 10"] by (subst str_nat.simps) simp
  qed
qed

lemma str_nat_nonempty: "str_nat n \<noteq> []"
  by (subst str_nat.simps) simp

lemma read_nat_acc_append:
  "read_nat_acc a (xs @ ys) =
     (case read_nat_acc a xs of None \<Rightarrow> None | Some b \<Rightarrow> read_nat_acc b ys)"
  by (induction xs arbitrary: a) (auto split: option.splits)

lemma read_nat_acc_str_nat:
  "read_nat_acc a (str_nat n) = Some (a * 10 ^ length (str_nat n) + n)"
proof (induction n arbitrary: a rule: str_nat.induct)
  case (1 n)
  show ?case
  proof (cases "n < 10")
    case True
    then show ?thesis by (subst (1 2) str_nat.simps) (simp add: digit_val_digit_char)
  next
    case False
    have "read_nat_acc a (str_nat n) =
          read_nat_acc a (str_nat (n div 10) @ [digit_char (n mod 10)])"
      using False by (subst str_nat.simps) simp
    also have "\<dots> = Some (10 * (a * 10 ^ length (str_nat (n div 10)) + n div 10) + n mod 10)"
      using False by (simp add: read_nat_acc_append 1 digit_val_digit_char)
    also have "\<dots> = Some (a * 10 ^ length (str_nat n) + n)"
      using False by (subst (2) str_nat.simps) (simp add: algebra_simps)
    finally show ?thesis .
  qed
qed

lemma read_nat_acc_zeros: "read_nat_acc 0 (replicate k CHR ''0'' @ ds) = read_nat_acc 0 ds"
  by (induction k) (simp_all add: digit_val_def)

lemma read_nat_zero_pad: "0 \<le> i \<Longrightarrow> read_nat (zero_pad w i) = Some (nat i)"
  by (simp add: read_nat_def zero_pad_def Let_def str_nat_nonempty read_nat_acc_zeros
      read_nat_acc_str_nat)

lemma length_str_nat_ge: "10 ^ k \<le> n \<Longrightarrow> k < length (str_nat n)"
proof (induction n arbitrary: k rule: str_nat.induct)
  case (1 n)
  show ?case
  proof (cases "n < 10")
    case True
    have "k = 0"
    proof (rule ccontr)
      assume "k \<noteq> 0"
      then have "(10::nat) ^ 1 \<le> 10 ^ k" by (intro power_increasing) auto
      with True "1.prems" show False by simp
    qed
    then show ?thesis using True by (subst str_nat.simps) simp
  next
    case False
    show ?thesis
    proof (cases k)
      case 0
      then show ?thesis using str_nat_nonempty [of n] by simp
    next
      case (Suc j)
      with "1.prems" have "10 ^ j \<le> n div 10" by simp
      with 1 False have "j < length (str_nat (n div 10))" by simp
      then show ?thesis using False Suc by (subst str_nat.simps) simp
    qed
  qed
qed

lemma length_str_nat_lt: "n < 10 ^ k \<Longrightarrow> 0 < k \<Longrightarrow> length (str_nat n) \<le> k"
proof (induction n arbitrary: k rule: str_nat.induct)
  case (1 n)
  show ?case
  proof (cases "n < 10")
    case True
    then show ?thesis using "1.prems" by (subst str_nat.simps) simp
  next
    case False
    then obtain j where k: "k = Suc j" using "1.prems" by (cases k) auto
    with False "1.prems" have "0 < j" by (cases j) auto
    moreover from k "1.prems" have "n div 10 < 10 ^ j" by simp
    ultimately have "length (str_nat (n div 10)) \<le> j" using 1 False by simp
    then show ?thesis using False k by (subst str_nat.simps) simp
  qed
qed

lemma zero_pad_digits: "0 \<le> i \<Longrightarrow> set (zero_pad w i) \<subseteq> set ''0123456789''"
  using str_nat_digits [of "nat i"] by (auto simp: zero_pad_def Let_def)

lemma length_zero_pad: "0 \<le> i \<Longrightarrow> length (zero_pad w i) = max w (length (str_nat (nat i)))"
  by (simp add: zero_pad_def Let_def)

lemma split_on_no_sep: "c \<notin> set s \<Longrightarrow> split_on c s = [s]"
  by (induction s) auto

lemma split_on_append: "c \<notin> set s \<Longrightarrow> split_on c (s @ c # rest) = s # split_on c rest"
  by (induction s) auto

lemma hms_parts:
  fixes d :: int
  shows "d div 3600 * 3600 + d mod 3600 div 60 * 60 + d mod 60 = d"
proof -
  have "d mod 3600 mod 60 = d mod 60" by (simp add: mod_mod_cancel)
  then have "d mod 3600 div 60 * 60 + d mod 60 = d mod 3600"
    using div_mult_mod_eq [of "d mod 3600" 60] by simp
  moreover have "d div 3600 * 3600 + d mod 3600 = d" by (rule div_mult_mod_eq)
  ultimately show ?thesis by linarith
qed

lemma minutes_range:
  fixes d :: int
  shows "0 \<le> d mod 3600 div 60" and "d mod 3600 div 60 < 60"
proof -
  have a: "0 \<le> d mod 3600" and b: "d mod 3600 \<le> 3599"
    using pos_mod_bound [of 3600 d] by simp_all
  show "0 \<le> d mod 3600 div 60" using a by (simp add: pos_imp_zdiv_nonneg_iff)
  have "d mod 3600 div 60 \<le> 3599 div 60" using b by (rule zdiv_mono1) simp
  then show "d mod 3600 div 60 < 60" by simp
qed

lemma hours_ge_100: "(360000::int) \<le> d \<Longrightarrow> 100 \<le> d div 3600"
proof -
  assume "360000 \<le> d"
  then have "360000 div 3600 \<le> d div 3600" by (rule zdiv_mono1) simp
  then show ?thesis by simp
qed

lemma hours_lt_100: "d < (360000::int) \<Longrightarrow> d div 3600 < 100"
proof -
  assume "d < 360000"
  then have "d \<le> 359999" by simp
  then have "d div 3600 \<le> 359999 div 3600" by (rule zdiv_mono1) simp
  then show ?thesis by simp
qed

lemma colon_not_digit: "0 \<le> i \<Longrightarrow> CHR '':'' \<notin> set (zero_pad w i)"
  using zero_pad_digits [of i w] by auto

lemma split_duration_str:
  assumes "0 \<le> d"
  shows "split_on CHR '':'' (duration_str d) =
           [zero_pad 2 (d div 3600), zero_pad 2 (d mod 3600 div 60), zero_pad 2 (d mod 60)]"
proof -
  have h: "0 \<le> d div 3600" and m: "0 \<le> d mod 3600 div 60" and s: "0 \<le> d mod 60"
    using assms by (simp_all add: pos_imp_zdiv_nonneg_iff)
  show ?thesis
    unfolding duration_str_def Let_def
    by (simp add: split_on_append [OF colon_not_digit [OF h]]
        split_on_append [OF colon_not_digit [OF m]]
        split_on_no_sep [OF colon_not_digit [OF s]])
qed

lemma length_zero_pad2_small:
  assumes "0 \<le> i" "i < 100"
  shows "length (zero_pad 2 i) = 2"
proof -
  have "nat i < 10 ^ 2" using assms by simp
  then have "length (str_nat (nat i)) \<le> 2" by (rule length_str_nat_lt) simp
  then show ?thesis using assms by (simp add: length_zero_pad)
qed

lemma hours_field_duration_str:
  assumes "0 \<le> d"
  shows "hours_field (duration_str d) = zero_pad 2 (d div 3600)"
proof -
  have h: "0 \<le> d div 3600" using assms by (simp add: pos_imp_zdiv_nonneg_iff)
  have "\<forall>c \<in> set (zero_pad 2 (d div 3600)). c \<noteq> CHR '':''"
    using colon_not_digit [OF h, of 2] by auto
  then show ?thesis
    unfolding duration_str_def Let_def hours_field_def
    by (simp add: takeWhile_append2 del: append_assoc)
qed

lemma zero_pad_all_digits: "0 \<le> i \<Longrightarrow> list_all is_digit (zero_pad w i)"
  unfolding list_all_iff is_digit_def using zero_pad_digits [of i w] by blast

lemma is_hms_duration_str:
  assumes "0 \<le> d"
  shows "is_hms (duration_str d)"
proof -
  have h: "0 \<le> d div 3600" and m: "0 \<le> d mod 3600 div 60" and s: "0 \<le> d mod 60"
    using assms by (simp_all add: pos_imp_zdiv_nonneg_iff)
  have m2: "d mod 3600 div 60 < 100" using minutes_range(2) [of d] by simp
  have s2: "d mod 60 < 100" using pos_mod_bound [of 60 d] by simp
  have lh: "2 \<le> length (zero_pad 2 (d div 3600))" by (simp add: length_zero_pad [OF h])
  have lm: "length (zero_pad 2 (d mod 3600 div 60)) = 2" by (rule length_zero_pad2_small [OF m m2])
  have ls: "length (zero_pad 2 (d mod 60)) = 2" by (rule length_zero_pad2_small [OF s s2])
  have dg: "list_all is_digit
              (zero_pad 2 (d div 3600) @ zero_pad 2 (d mod 3600 div 60) @ zero_pad 2 (d mod 60))"
    using zero_pad_all_digits [OF h, of 2] zero_pad_all_digits [OF m, of 2]
      zero_pad_all_digits [OF s, of 2] by (simp only: list_all_append)
  have "is_hms (duration_str d) =
          (2 \<le> length (zero_pad 2 (d div 3600)) \<and> length (zero_pad 2 (d mod 3600 div 60)) = 2
           \<and> length (zero_pad 2 (d mod 60)) = 2
           \<and> list_all is_digit
              (zero_pad 2 (d div 3600) @ zero_pad 2 (d mod 3600 div 60) @ zero_pad 2 (d mod 60)))"
    unfolding is_hms_def split_duration_str [OF assms] by (simp only: list.case)
  then show ?thesis using lh lm ls dg by blast
qed

lemma duration_element_tag:
  "(\<exists>c \<in> set (children (episode_item ep)). tag c = ITUNES @ ''duration'') \<longleftrightarrow> 0 < ep_duration ep"
  by (simp add: episode_item_def duration_element_def text_element_def ITUNES_def)

lemma duration_child_text:
  "child_text (ITUNES @ ''duration'') (episode_item ep) =
     (if 0 < ep_duration ep then Some (duration_str (ep_duration ep)) else None)"
  by (simp add: child_text_def episode_item_def duration_element_def text_element_def ITUNES_def)

lemma digit_char_nonzero: "0 < n \<Longrightarrow> n < 10 \<Longrightarrow> digit_char n \<noteq> CHR ''0''"
proof -
  assume "0 < n" "n < 10"
  then have "n \<in> {1,2,3,4,5,6,7,8,9}" by auto
  then show ?thesis unfolding digit_char_def by (elim insertE; simp)
qed

lemma hd_str_nat: "0 < n \<Longrightarrow> hd (str_nat n) \<noteq> CHR ''0''"
proof (induction n rule: str_nat.induct)
  case (1 n)
  show ?case
  proof (cases "n < 10")
    case True
    with "1.prems" show ?thesis by (subst str_nat.simps) (simp add: digit_char_nonzero)
  next
    case False
    then have "0 < n div 10" by simp
    with 1 False have "hd (str_nat (n div 10)) \<noteq> CHR ''0''" by simp
    then show ?thesis using False str_nat_nonempty [of "n div 10"]
      by (subst str_nat.simps) simp
  qed
qed

lemma read_hms_duration_str:
  assumes "0 \<le> d"
  shows "read_hms (duration_str d) = Some (nat (d div 3600), nat (d mod 3600 div 60), nat (d mod 60))"
proof -
  have h: "0 \<le> d div 3600" and m: "0 \<le> d mod 3600 div 60" and s: "0 \<le> d mod 60"
    using assms by (simp_all add: pos_imp_zdiv_nonneg_iff)
  show ?thesis
    unfolding read_hms_def
    by (simp add: split_duration_str [OF assms] read_nat_zero_pad [OF h] read_nat_zero_pad [OF m]
        read_nat_zero_pad [OF s])
qed

lemma length_duration_str:
  assumes "0 \<le> d" "d < 360000"
  shows "length (duration_str d) = 8"
proof -
  have h: "0 \<le> d div 3600" and m: "0 \<le> d mod 3600 div 60" and s: "0 \<le> d mod 60"
    using assms by (simp_all add: pos_imp_zdiv_nonneg_iff)
  have h2: "d div 3600 < 100" using assms(2) by (rule hours_lt_100)
  have m2: "d mod 3600 div 60 < 100" using minutes_range(2) [of d] by simp
  have s2: "d mod 60 < 100" using pos_mod_bound [of 60 d] by simp
  show ?thesis
    unfolding duration_str_def Let_def
    by (simp add: length_zero_pad2_small [OF h h2] length_zero_pad2_small [OF m m2]
        length_zero_pad2_small [OF s s2])
qed

lemma hd_duration_str:
  assumes "360000 \<le> d"
  shows "hd (duration_str d) \<noteq> CHR ''0''"
proof -
  from assms have h100: "100 \<le> d div 3600" by (rule hours_ge_100)
  then have "10 ^ 2 \<le> nat (d div 3600)" by simp
  then have len: "2 < length (str_nat (nat (d div 3600)))" by (rule length_str_nat_ge)
  from h100 have pos: "0 < nat (d div 3600)" by simp
  have zp: "zero_pad 2 (d div 3600) = str_nat (nat (d div 3600))"
    using h100 len by (simp add: zero_pad_def Let_def)
  have ne: "zero_pad 2 (d div 3600) \<noteq> []" using zp str_nat_nonempty by simp
  have "hd (duration_str d) = hd (zero_pad 2 (d div 3600))"
    unfolding duration_str_def Let_def using ne by simp
  with zp hd_str_nat [OF pos] show ?thesis by simp
qed

lemma duration_children:
  "filter (\<lambda>c. tag c = ITUNES @ ''duration'') (children (episode_item ep))
     = duration_element (ep_duration ep)"
  by (simp add: episode_item_def duration_element_def text_element_def ITUNES_def)

text \<open>
  Claim C9. An item has a duration element exactly when the duration of its episode is
  greater than 0, and never more than one. The text of the element is zero-padded
  \<open>HH:MM:SS\<close>: an hour field of at least two digits, minute and second fields of two
  digits; read as numbers, the fields are the hours, minutes below 60 and seconds below 60
  that add up to the duration. Below 360000 seconds the text has eight characters, and from
  360000 seconds on it has no leading zero. A duration of 3725 seconds gives the text
  \<open>01:02:05\<close>; a duration of 0 gives no element.
\<close>

theorem duration_element_emitted:
  "((\<exists>c \<in> set (children (episode_item ep)). tag c = ITUNES @ ''duration'') \<longleftrightarrow> 0 < ep_duration ep)
   \<and> length (filter (\<lambda>c. tag c = ITUNES @ ''duration'') (children (episode_item ep))) \<le> 1
   \<and> (0 < ep_duration ep \<longrightarrow>
        (\<exists>txt h m s. child_text (ITUNES @ ''duration'') (episode_item ep) = Some txt
           \<and> txt = duration_str (ep_duration ep)
           \<and> is_hms txt
           \<and> read_hms txt = Some (h, m, s) \<and> m < 60 \<and> s < 60
           \<and> int h * 3600 + int m * 60 + int s = ep_duration ep
           \<and> (ep_duration ep < 360000 \<longrightarrow> length txt = 8)
           \<and> (360000 \<le> ep_duration ep \<longrightarrow> hd txt \<noteq> CHR ''0'')))
   \<and> (ep_duration ep = 3725 \<longrightarrow>
        child_text (ITUNES @ ''duration'') (episode_item ep) = Some ''01:02:05'')
   \<and> (ep_duration ep \<le> 0 \<longrightarrow> child_text (ITUNES @ ''duration'') (episode_item ep) = None)"
proof -
  let ?d = "ep_duration ep"
  have c1: "(\<exists>c \<in> set (children (episode_item ep)). tag c = ITUNES @ ''duration'') \<longleftrightarrow> 0 < ?d"
    by (rule duration_element_tag)
  have c2: "length (filter (\<lambda>c. tag c = ITUNES @ ''duration'') (children (episode_item ep))) \<le> 1"
    by (simp add: duration_children duration_element_def)
  have c3: "\<exists>txt h m s. child_text (ITUNES @ ''duration'') (episode_item ep) = Some txt
           \<and> txt = duration_str ?d \<and> is_hms txt
           \<and> read_hms txt = Some (h, m, s) \<and> m < 60 \<and> s < 60
           \<and> int h * 3600 + int m * 60 + int s = ?d
           \<and> (?d < 360000 \<longrightarrow> length txt = 8)
           \<and> (360000 \<le> ?d \<longrightarrow> hd txt \<noteq> CHR ''0'')" if pos: "0 < ?d"
  proof -
    from pos have d0: "0 \<le> ?d" by simp
    have h: "0 \<le> ?d div 3600" and m: "0 \<le> ?d mod 3600 div 60" and s: "0 \<le> ?d mod 60"
      using d0 by (simp_all add: pos_imp_zdiv_nonneg_iff)
    have t: "child_text (ITUNES @ ''duration'') (episode_item ep) = Some (duration_str ?d)"
      using pos by (simp add: duration_child_text)
    have m60: "nat (?d mod 3600 div 60) < 60" using minutes_range(2) [of ?d] by simp
    have s60: "nat (?d mod 60) < 60" using pos_mod_bound [of 60 ?d] by simp
    have sum: "int (nat (?d div 3600)) * 3600 + int (nat (?d mod 3600 div 60)) * 60
                 + int (nat (?d mod 60)) = ?d"
      using h m s hms_parts [of ?d] by simp
    have l8: "?d < 360000 \<longrightarrow> length (duration_str ?d) = 8"
      using length_duration_str [OF d0] by blast
    have nz: "360000 \<le> ?d \<longrightarrow> hd (duration_str ?d) \<noteq> CHR ''0''"
      using hd_duration_str by blast
    from t is_hms_duration_str [OF d0] read_hms_duration_str [OF d0] m60 s60 sum l8 nz
    show ?thesis by blast
  qed
  have e: "duration_str 3725 = ''01:02:05''" by code_simp
  have c4: "?d = 3725 \<longrightarrow> child_text (ITUNES @ ''duration'') (episode_item ep) = Some ''01:02:05''"
    using e by (simp add: duration_child_text)
  have c5: "?d \<le> 0 \<longrightarrow> child_text (ITUNES @ ''duration'') (episode_item ep) = None"
    by (simp add: duration_child_text)
  from c1 c2 c3 c4 c5 show ?thesis by blast
qed

text \<open>Hours, minutes below 60 and seconds below 60 are determined by their total.\<close>

lemma hms_unique:
  fixes h m s :: nat
  assumes "int h * 3600 + int m * 60 + int s = d" "m < 60" "s < 60"
  shows "h = nat (d div 3600) \<and> m = nat (d mod 3600 div 60) \<and> s = nat (d mod 60)"
proof -
  define r where "r = m * 60 + s"
  have r: "r < 3600" using assms(2,3) by (simp add: r_def)
  have d: "d = int r + int h * 3600" using assms(1) by (simp add: r_def)
  have dh: "d div 3600 = int h" using r by (simp add: d)
  have dr: "d mod 3600 = int r" using r by (simp add: d)
  have rm: "int r div 60 = int m" using assms(3) by (simp add: r_def zdiv_int)
  have rs: "int r mod 60 = int s" using assms(3) by (simp add: r_def zmod_int)
  have "d mod 60 = d mod 3600 mod 60" by (simp add: mod_mod_cancel)
  then have ds: "d mod 60 = int s" by (simp add: dr rs)
  show ?thesis by (simp add: dh dr rm ds)
qed

text \<open>
  An episode of 3725 seconds, whose text reads back as 1 hour, 2 minutes and 5 seconds,
  and an episode of 0 seconds.
\<close>

theorem duration_element_emitted_witness:
  "(0::int) < 3725
   \<and> child_text (ITUNES @ ''duration'')
        (episode_item \<lparr>ep_filename = ''a.mp3'', ep_title = ''a'', ep_artist = ''Jaxon Digital'',
           ep_description = ''Strategy document - a'', ep_audio_url = ''https://example.org/a.mp3'',
           ep_pub_date = ''Thu, 01 Jan 2026 12:00:00  +0000'', ep_duration = 3725,
           ep_size = 1000\<rparr>) = Some ''01:02:05''
   \<and> read_hms ''01:02:05'' = Some (1, 2, 5)
   \<and> child_text (ITUNES @ ''duration'')
        (episode_item \<lparr>ep_filename = ''b.mp3'', ep_title = ''b'', ep_artist = ''Jaxon Digital'',
           ep_description = ''Strategy document - b'', ep_audio_url = ''https://example.org/b.mp3'',
           ep_pub_date = ''Thu, 01 Jan 2026 12:00:00  +0000'', ep_duration = 0,
           ep_size = 1000\<rparr>) = None"
    (is "_ \<and> child_text ?t (episode_item ?a) = _ \<and> _ \<and> child_text ?t (episode_item ?b) = _")
proof -
  have da: "ep_duration ?a = 3725" and db: "ep_duration ?b = 0" by simp_all
  have ta: "child_text ?t (episode_item ?a) = Some ''01:02:05''"
    using duration_element_emitted [of ?a] da by blast
  have pa: "0 < ep_duration ?a" using da by simp
  have "\<exists>txt h m s. child_text ?t (episode_item ?a) = Some txt \<and> read_hms txt = Some (h, m, s)
      \<and> m < 60 \<and> s < 60 \<and> int h * 3600 + int m * 60 + int s = ep_duration ?a"
    using duration_element_emitted [of ?a] pa by blast
  then obtain str h m s
    where "child_text ?t (episode_item ?a) = Some str" and "read_hms str = Some (h, m, s)"
      and "m < 60" and "s < 60" and "int h * 3600 + int m * 60 + int s = ep_duration ?a"
    by blast
  with ta da have r: "read_hms ''01:02:05'' = Some (h, m, s)"
    and b: "m < 60" "s < 60" and sum: "int h * 3600 + int m * 60 + int s = 3725"
    by simp_all
  from hms_unique [OF sum b] have "h = 1 \<and> m = 2 \<and> s = 5" by simp
  with r have ra: "read_hms ''01:02:05'' = Some (1, 2, 5)" by simp
  have tb: "child_text ?t (episode_item ?b) = None"
    using duration_element_emitted [of ?b] db by simp
  from ta ra tb show ?thesis by simp
qed

text \<open>
  Claim C10. For a duration \<open>d > 0\<close> the minutes and the seconds computed by the code lie
  in \<open>[0, 60)\<close> and \<open>hours * 3600 + minutes * 60 + seconds = d\<close>; the rendered text reads
  back as exactly these three numbers, so no digit of the hours is cut; the hour field has
  at least two characters, and three or more exactly when \<open>d\<close> is at least 360000.
\<close>

theorem duration_lossless:
  assumes "0 < d"
  shows "0 \<le> d mod 3600 div 60 \<and> d mod 3600 div 60 < 60 \<and> 0 \<le> d mod 60 \<and> d mod 60 < 60
         \<and> (d div 3600) * 3600 + (d mod 3600 div 60) * 60 + d mod 60 = d
         \<and> read_hms (duration_str d) =
             Some (nat (d div 3600), nat (d mod 3600 div 60), nat (d mod 60))
         \<and> 2 \<le> length (hours_field (duration_str d))
         \<and> (360000 \<le> d \<longleftrightarrow> 3 \<le> length (hours_field (duration_str d)))"
proof -
  have d0: "0 \<le> d" using assms by simp
  have h: "0 \<le> d div 3600" and m: "0 \<le> d mod 3600 div 60" and s: "0 \<le> d mod 60"
    using assms by (simp_all add: pos_imp_zdiv_nonneg_iff)
  have arith: "(d div 3600) * 3600 + (d mod 3600 div 60) * 60 + d mod 60 = d"
    by (rule hms_parts)
  have m60: "d mod 3600 div 60 < 60" by (rule minutes_range)
  have s60: "d mod 60 < 60" by simp
  have rd: "read_hms (duration_str d) =
             Some (nat (d div 3600), nat (d mod 3600 div 60), nat (d mod 60))"
    unfolding read_hms_def
    by (simp add: split_duration_str [OF d0] read_nat_zero_pad [OF h] read_nat_zero_pad [OF m]
        read_nat_zero_pad [OF s])
  have len2: "2 \<le> length (hours_field (duration_str d))"
    by (simp add: hours_field_duration_str [OF d0] length_zero_pad [OF h])
  have len3: "360000 \<le> d \<longleftrightarrow> 3 \<le> length (hours_field (duration_str d))"
  proof
    assume "360000 \<le> d"
    then have "100 \<le> d div 3600" by (rule hours_ge_100)
    then have "10 ^ 2 \<le> nat (d div 3600)" by simp
    then have "2 < length (str_nat (nat (d div 3600)))" by (rule length_str_nat_ge)
    then show "3 \<le> length (hours_field (duration_str d))"
      by (simp add: hours_field_duration_str [OF d0] length_zero_pad [OF h])
  next
    assume a: "3 \<le> length (hours_field (duration_str d))"
    show "360000 \<le> d"
    proof (rule ccontr)
      assume "\<not> 360000 \<le> d"
      then have "d div 3600 < 100" by (simp add: hours_lt_100)
      then have "length (zero_pad 2 (d div 3600)) = 2" using h by (intro length_zero_pad2_small)
      with a show False by (simp add: hours_field_duration_str [OF d0])
    qed
  qed
  show ?thesis using m s m60 s60 arith rd len2 len3 by blast
qed

text \<open>The hypothesis of the previous theorem holds at 360000 seconds, which renders 100 hours.\<close>

theorem duration_lossless_witness:
  "(0::int) < 360000 \<and> read_hms (duration_str 360000) = Some (100, 0, 0)
   \<and> 3 \<le> length (hours_field (duration_str 360000))"
proof -
  have pos: "(0::int) < 360000" by simp
  have r: "read_hms (duration_str 360000) =
             Some (nat (360000 div 3600), nat (360000 mod 3600 div 60), nat (360000 mod 60))"
    and l: "((360000::int) \<le> 360000) = (3 \<le> length (hours_field (duration_str 360000)))"
    using duration_lossless [OF pos] by blast+
  have "nat (360000 div 3600) = 100" "nat (360000 mod 3600 div 60) = 0" "nat (360000 mod 60) = 0"
    by simp_all
  with r have "read_hms (duration_str 360000) = Some (100, 0, 0)" by simp
  moreover from l have "3 \<le> length (hours_field (duration_str 360000))" by simp
  ultimately show ?thesis using pos by blast
qed

section \<open>The URL resolver\<close>

text \<open>
  Claim C3. When the file name is a key of the mapping, the resolver returns the value of
  the mapping, whatever the fallback base path is; otherwise it returns the fixed base
  path, a slash and the file name, each exactly once.
\<close>

theorem get_audio_url_resolves:
  "(\<forall>url. urls fname = Some url \<longrightarrow> get_audio_url fname urls = url)
   \<and> (fname \<notin> dom urls \<longrightarrow>
        get_audio_url fname urls = GITHUB_BASE_URL @ ''/'' @ fname
        \<and> length (get_audio_url fname urls) = length GITHUB_BASE_URL + 1 + length fname)"
  by (auto simp: get_audio_url_def)

text \<open>Both hypotheses of the theorem for C3 are met: one name is a key, the other is not.\<close>

theorem get_audio_url_resolves_witness:
  "get_audio_url ''a.mp3'' [''a.mp3'' \<mapsto> ''https://drive.google.com/uc?export=download&id=X1'']
     = ''https://drive.google.com/uc?export=download&id=X1''
   \<and> get_audio_url ''b.mp3'' [''a.mp3'' \<mapsto> ''https://drive.google.com/uc?export=download&id=X1'']
     = ''https://jaxondigital.github.io/jaxon-strategy-feed/audio/b.mp3''"
  using get_audio_url_resolves
      [of "[''a.mp3'' \<mapsto> ''https://drive.google.com/uc?export=download&id=X1'']" "''a.mp3''"]
    get_audio_url_resolves
      [of "[''a.mp3'' \<mapsto> ''https://drive.google.com/uc?export=download&id=X1'']" "''b.mp3''"]
  by (simp add: GITHUB_BASE_URL_def)

section \<open>Skipped files leave the feed unchanged\<close>

lemma collect_episodes_filter:
  "(\<And>f. f \<in> set fs \<Longrightarrow> \<not> P f \<Longrightarrow> skipped env f) \<Longrightarrow>
   collect_episodes env urls (filter P fs) acc = collect_episodes env urls fs acc"
proof (induction fs arbitrary: acc)
  case Nil
  show ?case by simp
next
  case (Cons f fs)
  have ih: "collect_episodes env urls (filter P fs) a = collect_episodes env urls fs a" for a
    using Cons.prems by (intro Cons.IH) simp_all
  show ?case
  proof (cases "P f")
    case True
    then show ?thesis by (simp add: ih split: option.splits sum.splits)
  next
    case False
    with Cons.prems have "skipped env f" by simp
    then show ?thesis using False by (auto simp: ih skipped_def)
  qed
qed

lemma sorted_paths_filter: "sorted_paths (filter P files) = filter P (sorted_paths files)"
  by (simp add: sorted_paths_def filter_sort)

lemma set_sorted_paths: "set (sorted_paths files) = set files"
  by (simp add: sorted_paths_def)

lemma build_episodes_filter:
  assumes "\<And>f. f \<in> set files \<Longrightarrow> \<not> P f \<Longrightarrow> skipped env f"
  shows "build_episodes env urls (filter P files) = build_episodes env urls files"
proof -
  have "collect_episodes env urls (filter P (sorted_paths files)) [] =
        collect_episodes env urls (sorted_paths files) []"
    using assms by (intro collect_episodes_filter) (simp_all add: set_sorted_paths)
  then show ?thesis by (simp add: build_episodes_def sorted_paths_filter)
qed

lemma generate_rss_filter:
  assumes "\<And>f. f \<in> set files \<Longrightarrow> \<not> P f \<Longrightarrow> skipped env f"
  shows "generate_rss env mf (filter P files) = generate_rss env mf files"
  by (simp add: generate_rss_def build_episodes_filter [OF assms] split: sum.splits)

lemma collect_episodes_names:
  "collect_episodes env urls fs acc = Inr eps \<Longrightarrow> e \<in> set eps \<Longrightarrow>
   e \<in> set acc \<or> (\<exists>f \<in> set fs. path_name f = ep_filename e \<and> \<not> skipped env f)"
proof (induction fs arbitrary: acc)
  case Nil
  then show ?case by simp
next
  case (Cons f fs)
  show ?case
  proof (cases "skipped env f")
    case True
    then have "collect_episodes env urls (f # fs) acc = collect_episodes env urls fs acc"
      by (auto simp: skipped_def)
    with Cons show ?thesis by auto
  next
    case False
    then obtain md where md: "get_mp3_metadata env (path_name f) = Some md"
      and nt: "\<not> is_temp_or_chunk (path_name f)" by (auto simp: skipped_def)
    from Cons.prems(1) md nt obtain pd where pd: "pub_date_of env (st_mtime f) = Inr pd"
      by (cases "pub_date_of env (st_mtime f)") (simp_all add: Let_def)
    let ?ep = "make_episode (path_name f) md (get_audio_url (path_name f) urls) pd"
    from Cons.prems(1) md nt pd
    have "collect_episodes env urls fs (acc @ [?ep]) = Inr eps" by (simp add: Let_def)
    from Cons.IH [OF this Cons.prems(2)]
    show ?thesis using False by (auto simp: make_episode_def)
  qed
qed

lemma set_sort_reverse: "set (sort_reverse k xs) = set xs"
  by (simp add: sort_reverse_def)

lemma build_episodes_names:
  assumes "build_episodes env urls files = Inr eps" "e \<in> set eps"
  shows "\<exists>f \<in> set files. path_name f = ep_filename e \<and> \<not> skipped env f"
proof -
  from assms(1) obtain eps0 where c: "collect_episodes env urls (sorted_paths files) [] = Inr eps0"
    and eps: "eps = sort_reverse ep_pub_date eps0"
    by (auto simp: build_episodes_def split: sum.splits)
  from assms(2) eps have "e \<in> set eps0" by (simp add: set_sort_reverse)
  from collect_episodes_names [OF c this] show ?thesis by (simp add: set_sorted_paths)
qed

lemma get_mp3_metadata_None_iff:
  "get_mp3_metadata env n = None \<longleftrightarrow> (\<exists>e. read_metadata env n = Inl e)"
  by (simp add: get_mp3_metadata_def split: sum.splits)

lemma read_metadata_fails:
  "(\<exists>e. read_metadata env n = Inl e) \<longleftrightarrow>
     (case ffprobe env n of
        Inl e \<Rightarrow> True
      | Inr data \<Rightarrow>
          (let fi = (case format data of Some fi \<Rightarrow> fi | None \<Rightarrow> empty_format)
           in isl (duration_field env fi) \<or> isl (size_field env fi)))"
  by (auto simp: read_metadata_def Let_def split: sum.splits option.splits)

text \<open>The feed of these two files has one item, that of the file that was read.\<close>

lemma example_feed_items:
  "map (child_text ''title'')
     (case generate_rss example_gen_env None
        [\<lparr>path_name = ''broken.mp3'', st_mtime = 1767268800\<rparr>,
         \<lparr>path_name = ''b.mp3'', st_mtime = 1767355200\<rparr>] of Inr rss \<Rightarrow> feed_items rss | Inl e \<Rightarrow> [])
   = [Some ''Vision'']"
  by code_simp

section \<open>Files that are read yield an item\<close>

lemma feed_items_document: "feed_items (feed_document eps) = map episode_item eps"
proof -
  have "filter (\<lambda>e. tag e = ''item'') channel_header = []"
    by (simp add: channel_header_def text_element_def ITUNES_def ATOM_def)
  moreover have "filter (\<lambda>e. tag e = ''item'') (map episode_item eps) = map episode_item eps"
    by (simp add: filter_map comp_def episode_item_def)
  ultimately show ?thesis by (simp add: feed_items_def feed_document_def)
qed

lemma collect_episodes_acc:
  "collect_episodes env urls fs acc = Inr eps \<Longrightarrow>
   \<exists>new. eps = acc @ new \<and> length new = length (filter (\<lambda>f. \<not> skipped env f) fs)"
proof (induction fs arbitrary: acc)
  case Nil
  then show ?case by simp
next
  case (Cons f fs)
  show ?case
  proof (cases "skipped env f")
    case True
    then have "collect_episodes env urls (f # fs) acc = collect_episodes env urls fs acc"
      by (auto simp: skipped_def)
    with Cons True show ?thesis by simp
  next
    case False
    then obtain md where md: "get_mp3_metadata env (path_name f) = Some md"
      and nt: "\<not> is_temp_or_chunk (path_name f)" by (auto simp: skipped_def)
    from Cons.prems md nt obtain pd where pd: "pub_date_of env (st_mtime f) = Inr pd"
      by (cases "pub_date_of env (st_mtime f)") (simp_all add: Let_def)
    let ?ep = "make_episode (path_name f) md (get_audio_url (path_name f) urls) pd"
    from Cons.prems md nt pd
    have "collect_episodes env urls fs (acc @ [?ep]) = Inr eps" by (simp add: Let_def)
    from Cons.IH [OF this] obtain new where "eps = (acc @ [?ep]) @ new"
      and "length new = length (filter (\<lambda>f. \<not> skipped env f) fs)" by blast
    then have "eps = acc @ (?ep # new)"
      and "length (?ep # new) = length (filter (\<lambda>f. \<not> skipped env f) (f # fs))"
      using False by simp_all
    then show ?thesis by blast
  qed
qed

lemma collect_episodes_complete:
  "collect_episodes env urls fs acc = Inr eps \<Longrightarrow> g \<in> set fs \<Longrightarrow>
   \<not> is_temp_or_chunk (path_name g) \<Longrightarrow> get_mp3_metadata env (path_name g) = Some md \<Longrightarrow>
   \<exists>pd. pub_date_of env (st_mtime g) = Inr pd
      \<and> make_episode (path_name g) md (get_audio_url (path_name g) urls) pd \<in> set eps"
proof (induction fs arbitrary: acc)
  case Nil
  then show ?case by simp
next
  case (Cons f fs)
  show ?case
  proof (cases "skipped env f")
    case True
    then have eq: "collect_episodes env urls (f # fs) acc = collect_episodes env urls fs acc"
      by (auto simp: skipped_def)
    from True Cons.prems(3,4) have "g \<noteq> f" by (auto simp: skipped_def)
    with Cons.prems(2) have "g \<in> set fs" by simp
    from Cons.IH [OF _ this Cons.prems(3,4)] Cons.prems(1) eq show ?thesis by simp
  next
    case False
    then obtain mdf where md: "get_mp3_metadata env (path_name f) = Some mdf"
      and nt: "\<not> is_temp_or_chunk (path_name f)" by (auto simp: skipped_def)
    from Cons.prems(1) md nt obtain pd where pd: "pub_date_of env (st_mtime f) = Inr pd"
      by (cases "pub_date_of env (st_mtime f)") (simp_all add: Let_def)
    let ?ep = "make_episode (path_name f) mdf (get_audio_url (path_name f) urls) pd"
    from Cons.prems(1) md nt pd
    have c: "collect_episodes env urls fs (acc @ [?ep]) = Inr eps" by (simp add: Let_def)
    show ?thesis
    proof (cases "g = f")
      case True
      from collect_episodes_acc [OF c] have "?ep \<in> set eps" by auto
      with True md pd Cons.prems(4) show ?thesis by auto
    next
      case False
      with Cons.prems(2) have "g \<in> set fs" by simp
      from Cons.IH [OF c this Cons.prems(3,4)] show ?thesis .
    qed
  qed
qed

lemma generate_rss_result:
  assumes "generate_rss env mf files = Inr rss"
  obtains urls eps0 where "load_drive_urls mf = Inr urls"
    and "collect_episodes env urls (sorted_paths files) [] = Inr eps0"
    and "rss = feed_document (sort_reverse ep_pub_date eps0)"
  using assms
  by (auto simp: generate_rss_def build_episodes_def split: sum.splits)

lemma length_sort_reverse: "length (sort_reverse k xs) = length xs"
  by (simp add: sort_reverse_def)

lemma length_filter_sorted_paths:
  "length (filter P (sorted_paths files)) = length (filter P files)"
proof -
  have "length (filter P (sorted_paths files)) = length (sorted_paths (filter P files))"
    by (simp only: sorted_paths_filter)
  then show ?thesis by (simp add: sorted_paths_def)
qed

lemma readable_file_has_item:
  assumes g: "generate_rss env mf files = Inr rss" and l: "load_drive_urls mf = Inr urls"
    and f: "f \<in> set files" "\<not> is_temp_or_chunk (path_name f)"
      "get_mp3_metadata env (path_name f) = Some md"
  shows "\<exists>pd. pub_date_of env (st_mtime f) = Inr pd
      \<and> episode_item (make_episode (path_name f) md (get_audio_url (path_name f) urls) pd)
          \<in> set (feed_items rss)"
proof -
  from g obtain urls' eps0 where l': "load_drive_urls mf = Inr urls'"
    and c: "collect_episodes env urls' (sorted_paths files) [] = Inr eps0"
    and rss: "rss = feed_document (sort_reverse ep_pub_date eps0)"
    by (rule generate_rss_result)
  from l l' have u: "urls' = urls" by simp
  from f(1) have "f \<in> set (sorted_paths files)" by (simp add: set_sorted_paths)
  from collect_episodes_complete [OF c this f(2,3)] obtain pd
    where "pub_date_of env (st_mtime f) = Inr pd"
      and "make_episode (path_name f) md (get_audio_url (path_name f) urls') pd \<in> set eps0"
    by blast
  then show ?thesis unfolding rss u by (auto simp: feed_items_document set_sort_reverse)
qed

lemma count_feed_items:
  assumes "generate_rss env mf files = Inr rss"
  shows "length (feed_items rss) = length (filter (\<lambda>f. \<not> skipped env f) files)"
proof -
  from assms obtain urls eps0
    where c: "collect_episodes env urls (sorted_paths files) [] = Inr eps0"
    and rss: "rss = feed_document (sort_reverse ep_pub_date eps0)"
    by (rule generate_rss_result)
  from collect_episodes_acc [OF c]
  have "length eps0 = length (filter (\<lambda>f. \<not> skipped env f) (sorted_paths files))" by auto
  then show ?thesis
    unfolding rss by (simp add: feed_items_document length_sort_reverse length_filter_sorted_paths)
qed

text \<open>
  Claim C8. When an exception is raised while the metadata tool is invoked or its output is
  read, the extractor returns \<open>None\<close>. The generator then gives the same result as
  without the file, and no episode carries its name. The other files are still processed:
  a run that returns a feed has one item for every file that is neither skipped by name nor
  unreadable, and every file whose metadata is read has the item built from its
  metadata, its resolved URL and its publication date.
\<close>

theorem metadata_failure_skips_file:
  assumes "read_metadata env n = Inl e"
  shows "get_mp3_metadata env n = None
    \<and> generate_rss env mf files = generate_rss env mf (filter (\<lambda>f. path_name f \<noteq> n) files)
    \<and> (\<forall>eps. build_episodes env urls files = Inr eps \<longrightarrow> n \<notin> ep_filename ` set eps)
    \<and> (\<forall>rss. generate_rss env mf files = Inr rss \<longrightarrow>
          length (feed_items rss) = length (filter (\<lambda>f. \<not> skipped env f) files))
    \<and> (\<forall>rss du g md. generate_rss env mf files = Inr rss \<and> load_drive_urls mf = Inr du
          \<and> g \<in> set files \<and> \<not> is_temp_or_chunk (path_name g)
          \<and> get_mp3_metadata env (path_name g) = Some md \<longrightarrow>
          (\<exists>pd. pub_date_of env (st_mtime g) = Inr pd
             \<and> episode_item (make_episode (path_name g) md (get_audio_url (path_name g) du) pd)
                 \<in> set (feed_items rss)))"
proof -
  from assms have none: "get_mp3_metadata env n = None" by (simp add: get_mp3_metadata_def)
  have sk: "skipped env f" if "\<not> path_name f \<noteq> n" for f
    using that none by (simp add: skipped_def)
  have 1: "generate_rss env mf files = generate_rss env mf (filter (\<lambda>f. path_name f \<noteq> n) files)"
    by (rule generate_rss_filter [symmetric]) (rule sk)
  have 2: "n \<notin> ep_filename ` set eps" if b: "build_episodes env urls files = Inr eps" for eps
  proof
    assume "n \<in> ep_filename ` set eps"
    then obtain e where "e \<in> set eps" "ep_filename e = n" by auto
    with build_episodes_names [OF b] obtain f where "path_name f = n" "\<not> skipped env f"
      by auto
    with none show False by (simp add: skipped_def)
  qed
  have 3: "length (feed_items rss) = length (filter (\<lambda>f. \<not> skipped env f) files)"
    if "generate_rss env mf files = Inr rss" for rss
    using that by (rule count_feed_items)
  have 4: "\<exists>pd. pub_date_of env (st_mtime g) = Inr pd
             \<and> episode_item (make_episode (path_name g) md (get_audio_url (path_name g) du) pd)
                 \<in> set (feed_items rss)"
    if "generate_rss env mf files = Inr rss \<and> load_drive_urls mf = Inr du
          \<and> g \<in> set files \<and> \<not> is_temp_or_chunk (path_name g)
          \<and> get_mp3_metadata env (path_name g) = Some md" for rss du g md
    using that readable_file_has_item [of env mf files rss du g md] by blast
  from none 1 2 3 4 show ?thesis by blast
qed

lemma example_metadata:
  "get_mp3_metadata example_gen_env ''b.mp3''
     = Some \<lparr>md_title = ''Vision'', md_artist = ''Jaxon Digital'',
              md_album = ''Project Pivot Strategy'', md_comment = [],
              md_duration = 3725, md_size = 1000\<rparr>"
  by (simp add: get_mp3_metadata_def read_metadata_def example_gen_env_def duration_field_def
      size_field_def build_metadata_def dict_get_def)

text \<open>
  A file on which \<open>ffprobe\<close> exits with an error, beside a file that it reads: the feed
  has one item, that of the second file.
\<close>

theorem metadata_failure_skips_file_witness:
  "read_metadata example_gen_env ''broken.mp3'' = Inl CalledProcessError
   \<and> get_mp3_metadata example_gen_env ''broken.mp3'' = None
   \<and> generate_rss example_gen_env None
        [\<lparr>path_name = ''broken.mp3'', st_mtime = 1767268800\<rparr>,
         \<lparr>path_name = ''b.mp3'', st_mtime = 1767355200\<rparr>]
     = generate_rss example_gen_env None [\<lparr>path_name = ''b.mp3'', st_mtime = 1767355200\<rparr>]
   \<and> (case generate_rss example_gen_env None
              [\<lparr>path_name = ''broken.mp3'', st_mtime = 1767268800\<rparr>,
               \<lparr>path_name = ''b.mp3'', st_mtime = 1767355200\<rparr>] of
         Inl e \<Rightarrow> False
       | Inr rss \<Rightarrow>
           length (feed_items rss) = 1
           \<and> episode_item
               (make_episode ''b.mp3''
                  \<lparr>md_title = ''Vision'', md_artist = ''Jaxon Digital'',
                    md_album = ''Project Pivot Strategy'', md_comment = [],
                    md_duration = 3725, md_size = 1000\<rparr>
                  ''https://jaxondigital.github.io/jaxon-strategy-feed/audio/b.mp3''
                  ''Fri, 02 Jan 2026 12:00:00  +0000'')
               \<in> set (feed_items rss))"
proof -
  let ?broken = "\<lparr>path_name = ''broken.mp3'', st_mtime = 1767268800\<rparr>"
  let ?b = "\<lparr>path_name = ''b.mp3'', st_mtime = 1767355200\<rparr>"
  let ?md = "\<lparr>md_title = ''Vision'', md_artist = ''Jaxon Digital'',
              md_album = ''Project Pivot Strategy'', md_comment = [],
              md_duration = 3725, md_size = 1000\<rparr>"
  have f: "read_metadata example_gen_env ''broken.mp3'' = Inl CalledProcessError"
    by (simp add: read_metadata_def example_gen_env_def)
  note inst = metadata_failure_skips_file [OF f, where mf = None and files = "[?broken, ?b]"]
  have none: "get_mp3_metadata example_gen_env ''broken.mp3'' = None"
    and eq: "generate_rss example_gen_env None [?broken, ?b]
               = generate_rss example_gen_env None [?b]"
    using inst by simp_all
  have "case generate_rss example_gen_env None [?broken, ?b] of Inl e \<Rightarrow> False | Inr rss \<Rightarrow> True"
    by code_simp
  then obtain rss where g: "generate_rss example_gen_env None [?broken, ?b] = Inr rss"
    by (cases "generate_rss example_gen_env None [?broken, ?b]") simp_all
  have nt: "\<not> is_temp_or_chunk ''b.mp3''" by code_simp
  have sk: "skipped example_gen_env ?broken" "\<not> skipped example_gen_env ?b"
    using none nt example_metadata by (simp_all add: skipped_def)
  from inst g have "length (feed_items rss)
      = length (filter (\<lambda>f. \<not> skipped example_gen_env f) [?broken, ?b])"
    by blast
  with sk have len: "length (feed_items rss) = 1" by simp
  have "generate_rss example_gen_env None [?broken, ?b] = Inr rss
      \<and> load_drive_urls None = Inr Map.empty
      \<and> ?b \<in> set [?broken, ?b] \<and> \<not> is_temp_or_chunk (path_name ?b)
      \<and> get_mp3_metadata example_gen_env (path_name ?b) = Some ?md"
    using g nt example_metadata by (simp add: load_drive_urls_def)
  with inst obtain pd where pd: "pub_date_of example_gen_env (st_mtime ?b) = Inr pd"
    and it: "episode_item (make_episode (path_name ?b) ?md (get_audio_url (path_name ?b) Map.empty) pd)
                 \<in> set (feed_items rss)"
    by blast
  have "pub_date_of example_gen_env 1767355200 = Inr ''Fri, 02 Jan 2026 12:00:00  +0000''"
    by code_simp
  with pd have pdv: "pd = ''Fri, 02 Jan 2026 12:00:00  +0000''" by simp
  have url: "get_audio_url ''b.mp3'' Map.empty
               = ''https://jaxondigital.github.io/jaxon-strategy-feed/audio/b.mp3''"
    by (simp add: get_audio_url_def GITHUB_BASE_URL_def)
  from it have item: "episode_item (make_episode ''b.mp3'' ?md
                  ''https://jaxondigital.github.io/jaxon-strategy-feed/audio/b.mp3''
                  ''Fri, 02 Jan 2026 12:00:00  +0000'') \<in> set (feed_items rss)"
    unfolding pdv by (simp add: url)
  have feed: "case generate_rss example_gen_env None [?broken, ?b] of
         Inl e \<Rightarrow> False
       | Inr rss \<Rightarrow>
           length (feed_items rss) = 1
           \<and> episode_item (make_episode ''b.mp3'' ?md
                  ''https://jaxondigital.github.io/jaxon-strategy-feed/audio/b.mp3''
                  ''Fri, 02 Jan 2026 12:00:00  +0000'') \<in> set (feed_items rss)"
    unfolding g using len item by simp
  from f none eq feed show ?thesis by blast
qed

section \<open>The loop of the sync agent\<close>

lemma local_mp3s_filter: "local_mp3s names = filter (\<lambda>n. \<not> is_temp_or_chunk n) names"
  by (simp add: local_mp3s_def is_temp_or_chunk_def)

lemma local_mp3s_without:
  assumes "is_temp_or_chunk fname"
  shows "local_mp3s (filter (\<lambda>n. n \<noteq> fname) names) = local_mp3s names"
  unfolding local_mp3s_filter filter_filter using assms by (intro filter_cong) auto

lemma upload_calls:
  "snd (upload_file_to_drive env cs n) = cs
   \<or> snd (upload_file_to_drive env cs n) = cs @ [FilesCreate n]
   \<or> (\<exists>fid. snd (upload_file_to_drive env cs n)
              = cs @ [FilesCreate n, PermissionsCreate fid ''anyone'' ''reader''])"
  by (simp add: upload_file_to_drive_def Let_def split: option.splits sum.splits)

lemma sync_file_calls:
  "calls (sync_file env ex s n) = calls s
   \<or> ex n = None \<and> drive_urls s n = None
     \<and> calls (sync_file env ex s n) = snd (upload_file_to_drive env (calls s) n)"
  by (auto simp: sync_file_def split: option.splits sum.splits prod.splits)

lemma sync_file_creates:
  assumes "FilesCreate m \<in> set (calls (sync_file env ex s n))"
  shows "FilesCreate m \<in> set (calls s) \<or> m = n"
  using assms sync_file_calls [of env ex s n] upload_calls [of env "calls s" n] by auto

lemma sync_files_Cons:
  "sync_files env ex s (n # ns) = sync_files env ex (sync_file env ex s n) ns"
  by (simp add: sync_files_def)

lemma sync_files_Nil: "sync_files env ex s [] = s"
  by (simp add: sync_files_def)

lemma sync_files_creates:
  "FilesCreate m \<in> set (calls (sync_files env ex s ns)) \<Longrightarrow>
   FilesCreate m \<in> set (calls s) \<or> m \<in> set ns"
proof (induction ns arbitrary: s)
  case Nil
  then show ?case by (simp add: sync_files_Nil)
next
  case (Cons n ns)
  from Cons.prems have "FilesCreate m \<in> set (calls (sync_file env ex s n)) \<or> m \<in> set ns"
    unfolding sync_files_Cons by (rule Cons.IH)
  then show ?case using sync_file_creates [of m env ex s n] by auto
qed

lemma sync_file_dom: "dom (drive_urls s) \<subseteq> dom (drive_urls (sync_file env ex s n))"
  by (auto simp: sync_file_def split: option.splits sum.splits prod.splits)

lemma sync_files_dom: "dom (drive_urls s) \<subseteq> dom (drive_urls (sync_files env ex s ns))"
proof (induction ns arbitrary: s)
  case Nil
  show ?case by (simp add: sync_files_Nil)
next
  case (Cons n ns)
  have "dom (drive_urls s) \<subseteq> dom (drive_urls (sync_file env ex s n))" by (rule sync_file_dom)
  also have "\<dots> \<subseteq> dom (drive_urls (sync_files env ex (sync_file env ex s n) ns))"
    by (rule Cons.IH)
  finally show ?case by (simp add: sync_files_Cons)
qed

lemma sync_file_printed: "set (printed s) \<subseteq> set (printed (sync_file env ex s n))"
  by (auto simp: sync_file_def split: option.splits sum.splits prod.splits)

lemma sync_files_printed: "set (printed s) \<subseteq> set (printed (sync_files env ex s ns))"
proof (induction ns arbitrary: s)
  case Nil
  show ?case by (simp add: sync_files_Nil)
next
  case (Cons n ns)
  have "set (printed s) \<subseteq> set (printed (sync_file env ex s n))" by (rule sync_file_printed)
  also have "\<dots> \<subseteq> set (printed (sync_files env ex (sync_file env ex s n) ns))"
    by (rule Cons.IH)
  finally show ?case by (simp add: sync_files_Cons)
qed

lemma main_result:
  assumes "main env mf names = Some (Inr s)"
  obtains ex loaded where "get_drive_service env = Inr ()"
    and "list_drive_files env = Some (Inr ex)"
    and "load_drive_urls mf = Inr loaded"
    and "s = sync_files env ex
               \<lparr>drive_urls = loaded, uploaded_count = 0, calls = [], printed = []\<rparr>
               (local_mp3s names)"
  using assms by (auto simp: main_def split: sum.splits option.splits)

lemma example_listing:
  "list_drive_files example_sync_env
     = Some (Inr [''a.mp3'' \<mapsto> ''https://drive.google.com/uc?export=download&id=ID1''])"
  unfolding list_drive_files_def
  by (subst list_drive_files_from.simps)
     (simp add: example_sync_env_def add_page_files_def download_link_def)

lemma example_service: "get_drive_service example_sync_env = Inr ()"
  by (simp add: get_drive_service_def example_sync_env_def)

text \<open>
  Claim C7. A run of the sync agent that reaches the final save has loaded a mapping, and
  every key of the loaded mapping is a key of the mapping it saves.
\<close>

theorem main_keeps_keys:
  assumes "main env mf names = Some (Inr s)"
  shows "\<exists>loaded. load_drive_urls mf = Inr loaded \<and> dom loaded \<subseteq> dom (drive_urls s)"
proof -
  from assms obtain ex loaded where l: "load_drive_urls mf = Inr loaded"
    and s: "s = sync_files env ex
               \<lparr>drive_urls = loaded, uploaded_count = 0, calls = [], printed = []\<rparr>
               (local_mp3s names)"
    by (rule main_result)
  have "dom loaded \<subseteq> dom (drive_urls s)"
    unfolding s using sync_files_dom [of "\<lparr>drive_urls = loaded, uploaded_count = 0, calls = [], printed = []\<rparr>" env ex "local_mp3s names"]
    by simp
  with l show ?thesis by blast
qed

text \<open>A run that reaches the save, started from a mapping with one key.\<close>

theorem main_keeps_keys_witness:
  "(case main example_sync_env (Some (Inr [''old.mp3'' \<mapsto> ''https://example.org/old''])) [''a.mp3'', ''b.mp3''] of
      Some (Inr s) \<Rightarrow> ''old.mp3'' \<in> dom (drive_urls s)
    | _ \<Rightarrow> False)"
proof -
  let ?mf = "Some (Inr [''old.mp3'' \<mapsto> ''https://example.org/old''])"
  obtain s where m: "main example_sync_env ?mf [''a.mp3'', ''b.mp3''] = Some (Inr s)"
    by (simp add: main_def example_service example_listing load_drive_urls_def)
  from main_keeps_keys [OF m] have "''old.mp3'' \<in> dom (drive_urls s)"
    by (auto simp: load_drive_urls_def)
  with m show ?thesis by simp
qed

section \<open>Temporary and chunk files\<close>

text \<open>
  Claim C6. A file whose name contains \<open>.temp.\<close> or \<open>.chunk\<close> contributes nothing to the
  feed: the generator gives the same result as without the file, and no episode carries
  its name. The sync agent runs as it does without the file and makes no
  \<open>files().create\<close> call for its name.
\<close>

theorem excluded_file_ignored:
  assumes "is_temp_or_chunk fname"
  shows "generate_rss genv mf files = generate_rss genv mf (filter (\<lambda>f. path_name f \<noteq> fname) files)
    \<and> (\<forall>eps. build_episodes genv urls files = Inr eps \<longrightarrow> fname \<notin> ep_filename ` set eps)
    \<and> main senv mf names = main senv mf (filter (\<lambda>n. n \<noteq> fname) names)
    \<and> (\<forall>s. main senv mf names = Some (Inr s) \<longrightarrow> FilesCreate fname \<notin> set (calls s))"
proof -
  have sk: "skipped genv f" if "\<not> path_name f \<noteq> fname" for f
    using that assms by (simp add: skipped_def)
  have 1: "generate_rss genv mf files
             = generate_rss genv mf (filter (\<lambda>f. path_name f \<noteq> fname) files)"
    by (rule generate_rss_filter [symmetric]) (rule sk)
  have 2: "fname \<notin> ep_filename ` set eps" if b: "build_episodes genv urls files = Inr eps" for eps
  proof
    assume "fname \<in> ep_filename ` set eps"
    then obtain e where "e \<in> set eps" "ep_filename e = fname" by auto
    with build_episodes_names [OF b] obtain f where "path_name f = fname" "\<not> skipped genv f"
      by auto
    with assms show False by (simp add: skipped_def)
  qed
  have 3: "main senv mf names = main senv mf (filter (\<lambda>n. n \<noteq> fname) names)"
    unfolding main_def local_mp3s_without [OF assms] by (rule refl)
  have 4: "FilesCreate fname \<notin> set (calls s)" if m: "main senv mf names = Some (Inr s)" for s
  proof
    assume a: "FilesCreate fname \<in> set (calls s)"
    from m obtain ex loaded where s: "s = sync_files senv ex
               \<lparr>drive_urls = loaded, uploaded_count = 0, calls = [], printed = []\<rparr>
               (local_mp3s names)"
      by (rule main_result)
    from a have "fname \<in> set (local_mp3s names)"
      unfolding s using sync_files_creates by fastforce
    with assms show False by (simp add: local_mp3s_filter)
  qed
  from 1 2 3 4 show ?thesis by blast
qed

text \<open>A temporary file beside a finished one.\<close>

theorem excluded_file_ignored_witness:
  "is_temp_or_chunk ''a.temp.mp3''
   \<and> generate_rss example_gen_env None
        [\<lparr>path_name = ''a.temp.mp3'', st_mtime = 1767268800\<rparr>,
         \<lparr>path_name = ''b.mp3'', st_mtime = 1767355200\<rparr>]
     = generate_rss example_gen_env None [\<lparr>path_name = ''b.mp3'', st_mtime = 1767355200\<rparr>]
   \<and> main example_sync_env None [''a.temp.mp3'', ''b.mp3'']
     = main example_sync_env None [''b.mp3'']"
proof -
  have ex: "is_temp_or_chunk ''a.temp.mp3''" by code_simp
  from excluded_file_ignored [OF ex, where genv = example_gen_env and mf = None
      and files = "[\<lparr>path_name = ''a.temp.mp3'', st_mtime = 1767268800\<rparr>,
        \<lparr>path_name = ''b.mp3'', st_mtime = 1767355200\<rparr>]"
      and senv = example_sync_env and names = "[''a.temp.mp3'', ''b.mp3'']"]
  show ?thesis using ex by simp
qed

section \<open>The three branches of the loop\<close>

lemma upload_succeeds_iff:
  "fst (upload_file_to_drive env cs n) = Inr link \<longleftrightarrow>
     (\<exists>fid. media_file env n = None \<and> files_create env cs n = Inr fid
        \<and> permissions_create env (cs @ [FilesCreate n]) fid = None \<and> link = download_link fid)"
  by (auto simp: upload_file_to_drive_def Let_def split: option.splits sum.splits)

lemma upload_success_calls:
  assumes "media_file env n = None" "files_create env cs n = Inr fid"
    "permissions_create env (cs @ [FilesCreate n]) fid = None"
  shows "upload_file_to_drive env cs n
           = (Inr (download_link fid), cs @ [FilesCreate n, PermissionsCreate fid ''anyone'' ''reader''])"
  using assms by (simp add: upload_file_to_drive_def Let_def)

text \<open>
  One step of the loop from any state: what each branch does to the mapping, the count
  of uploads and the calls.
\<close>

lemma sync_file_step:
  "(\<forall>link. ex n = Some link \<longrightarrow>
       drive_urls (sync_file env ex s n) = (drive_urls s)(n \<mapsto> link)
       \<and> uploaded_count (sync_file env ex s n) = uploaded_count s
       \<and> calls (sync_file env ex s n) = calls s)
   \<and> (\<forall>u. ex n = None \<and> drive_urls s n = Some u \<longrightarrow>
       drive_urls (sync_file env ex s n) = drive_urls s
       \<and> uploaded_count (sync_file env ex s n) = uploaded_count s
       \<and> calls (sync_file env ex s n) = calls s)
   \<and> (\<forall>fid. ex n = None \<and> drive_urls s n = None \<and> media_file env n = None
          \<and> files_create env (calls s) n = Inr fid
          \<and> permissions_create env (calls s @ [FilesCreate n]) fid = None \<longrightarrow>
       drive_urls (sync_file env ex s n) = (drive_urls s)(n \<mapsto> download_link fid)
       \<and> uploaded_count (sync_file env ex s n) = uploaded_count s + 1
       \<and> calls (sync_file env ex s n)
           = calls s @ [FilesCreate n, PermissionsCreate fid ''anyone'' ''reader''])
   \<and> (\<forall>e. ex n = None \<and> drive_urls s n = None
          \<and> fst (upload_file_to_drive env (calls s) n) = Inl e \<longrightarrow>
       drive_urls (sync_file env ex s n) = drive_urls s
       \<and> uploaded_count (sync_file env ex s n) = uploaded_count s
       \<and> UploadError e \<in> set (printed (sync_file env ex s n)))"
proof (intro conjI allI impI)
  fix link assume a: "ex n = Some link"
  have eq: "sync_file env ex s n
           = s\<lparr>drive_urls := (drive_urls s)(n \<mapsto> link), printed := printed s @ [AlreadyOnDrive n]\<rparr>"
    using a by (simp add: sync_file_def)
  show "drive_urls (sync_file env ex s n) = (drive_urls s)(n \<mapsto> link)" by (simp add: eq)
  show "uploaded_count (sync_file env ex s n) = uploaded_count s" by (simp add: eq)
  show "calls (sync_file env ex s n) = calls s" by (simp add: eq)
next
  fix u assume "ex n = None \<and> drive_urls s n = Some u"
  then have eq: "sync_file env ex s n = s\<lparr>printed := printed s @ [AlreadyMapped n]\<rparr>"
    by (simp add: sync_file_def)
  show "drive_urls (sync_file env ex s n) = drive_urls s" by (simp add: eq)
  show "uploaded_count (sync_file env ex s n) = uploaded_count s" by (simp add: eq)
  show "calls (sync_file env ex s n) = calls s" by (simp add: eq)
next
  fix fid
  assume a: "ex n = None \<and> drive_urls s n = None \<and> media_file env n = None
          \<and> files_create env (calls s) n = Inr fid
          \<and> permissions_create env (calls s @ [FilesCreate n]) fid = None"
  then have up: "upload_file_to_drive env (calls s) n
       = (Inr (download_link fid), calls s @ [FilesCreate n, PermissionsCreate fid ''anyone'' ''reader''])"
    by (simp add: upload_success_calls)
  from a have eq: "sync_file env ex s n
           = s\<lparr>drive_urls := (drive_urls s)(n \<mapsto> download_link fid),
               uploaded_count := uploaded_count s + 1,
               calls := calls s @ [FilesCreate n, PermissionsCreate fid ''anyone'' ''reader''],
               printed := printed s @ [Uploading n, Uploaded (download_link fid)]\<rparr>"
    using up by (simp add: sync_file_def)
  show "drive_urls (sync_file env ex s n) = (drive_urls s)(n \<mapsto> download_link fid)"
    by (simp add: eq)
  show "uploaded_count (sync_file env ex s n) = uploaded_count s + 1" by (simp add: eq)
  show "calls (sync_file env ex s n)
           = calls s @ [FilesCreate n, PermissionsCreate fid ''anyone'' ''reader'']"
    by (simp add: eq)
next
  fix e
  assume a: "ex n = None \<and> drive_urls s n = None
          \<and> fst (upload_file_to_drive env (calls s) n) = Inl e"
  then obtain cs where up: "upload_file_to_drive env (calls s) n = (Inl e, cs)"
    by (cases "upload_file_to_drive env (calls s) n") simp
  from a have eq: "sync_file env ex s n
           = s\<lparr>calls := cs, printed := printed s @ [Uploading n, UploadError e]\<rparr>"
    using up by (simp add: sync_file_def)
  show "drive_urls (sync_file env ex s n) = drive_urls s" by (simp add: eq)
  show "uploaded_count (sync_file env ex s n) = uploaded_count s" by (simp add: eq)
  show "UploadError e \<in> set (printed (sync_file env ex s n))" by (simp add: eq)
qed

text \<open>A run of \<open>main\<close> cut at one of its files.\<close>

lemma sync_files_append:
  "sync_files env ex s (xs @ ys) = sync_files env ex (sync_files env ex s xs) ys"
  by (simp add: sync_files_def)

lemma sync_file_other: "k \<noteq> n \<Longrightarrow> drive_urls (sync_file env ex s n) k = drive_urls s k"
  by (auto simp: sync_file_def split: option.splits sum.splits prod.splits)

lemma sync_files_other:
  "k \<notin> set ns \<Longrightarrow> drive_urls (sync_files env ex s ns) k = drive_urls s k"
  by (induction ns arbitrary: s) (simp_all add: sync_files_Nil sync_files_Cons sync_file_other)

lemma sync_file_calls_mono: "set (calls s) \<subseteq> set (calls (sync_file env ex s n))"
  using sync_file_calls [of env ex s n] upload_calls [of env "calls s" n] by auto

lemma sync_files_calls_mono: "set (calls s) \<subseteq> set (calls (sync_files env ex s ns))"
proof (induction ns arbitrary: s)
  case Nil
  show ?case by (simp add: sync_files_Nil)
next
  case (Cons n ns)
  have "set (calls s) \<subseteq> set (calls (sync_file env ex s n))" by (rule sync_file_calls_mono)
  also have "\<dots> \<subseteq> set (calls (sync_files env ex (sync_file env ex s n) ns))" by (rule Cons.IH)
  finally show ?case by (simp add: sync_files_Cons)
qed

lemma sync_file_names_in: "k \<noteq> n \<Longrightarrow> names_in (printed (sync_file env ex s n)) k = names_in (printed s) k"
  by (auto simp: names_in_def sync_file_def split: option.splits sum.splits prod.splits)

lemma sync_files_names_in:
  "k \<notin> set ns \<Longrightarrow> names_in (printed (sync_files env ex s ns)) k = names_in (printed s) k"
  by (induction ns arbitrary: s) (simp_all add: sync_files_Nil sync_files_Cons sync_file_names_in)

lemma split_at_name:
  assumes "distinct ns" "n \<in> set ns"
  shows "ns = takeWhile (\<lambda>m. m \<noteq> n) ns @ n # tl (dropWhile (\<lambda>m. m \<noteq> n) ns)
    \<and> n \<notin> set (takeWhile (\<lambda>m. m \<noteq> n) ns) \<and> n \<notin> set (tl (dropWhile (\<lambda>m. m \<noteq> n) ns))"
proof -
  let ?pre = "takeWhile (\<lambda>m. m \<noteq> n) ns" and ?rest = "dropWhile (\<lambda>m. m \<noteq> n) ns"
  from assms(2) have ne: "?rest \<noteq> []" by (simp add: dropWhile_eq_Nil_conv)
  then have "hd ?rest = n" using hd_dropWhile [of "\<lambda>m. m \<noteq> n" ns] by blast
  with ne have rest: "?rest = n # tl ?rest" by (cases ?rest) simp_all
  have ns: "ns = ?pre @ ?rest" by simp
  with rest have eq: "ns = ?pre @ n # tl ?rest" by simp
  have pre: "n \<notin> set ?pre" by (auto dest: set_takeWhileD)
  from assms(1) have "distinct ?rest" by simp
  with rest have "distinct (n # tl ?rest)" by simp
  then have "n \<notin> set (tl ?rest)" by simp
  with eq pre show ?thesis by blast
qed

lemma sync_file_listed:
  assumes "ex n = Some link"
  shows "drive_urls (sync_file env ex s n) n = Some link
    \<and> calls (sync_file env ex s n) = calls s
    \<and> names_in (printed (sync_file env ex s n)) n = insert (AlreadyOnDrive n) (names_in (printed s) n)"
  using assms by (auto simp: sync_file_def names_in_def)

lemma sync_file_saved:
  assumes "ex n = None" "drive_urls s n = Some u"
  shows "drive_urls (sync_file env ex s n) n = Some u
    \<and> calls (sync_file env ex s n) = calls s
    \<and> names_in (printed (sync_file env ex s n)) n = insert (AlreadyMapped n) (names_in (printed s) n)"
  using assms by (auto simp: sync_file_def names_in_def)

lemma sync_file_new:
  assumes "ex n = None" "drive_urls s n = None"
  shows "names_in (printed (sync_file env ex s n)) n = insert (Uploading n) (names_in (printed s) n)"
  using assms
  by (auto simp: sync_file_def names_in_def split: option.splits sum.splits prod.splits)

lemma names_in_Nil: "names_in [] k = {}"
  by (simp add: names_in_def)

lemma names_in_only:
  "names_in ms k = {m} \<Longrightarrow> m \<in> {AlreadyOnDrive k, AlreadyMapped k, Uploading k} \<Longrightarrow>
   (AlreadyOnDrive k \<in> set ms \<longleftrightarrow> m = AlreadyOnDrive k)
   \<and> (AlreadyMapped k \<in> set ms \<longleftrightarrow> m = AlreadyMapped k)
   \<and> (Uploading k \<in> set ms \<longleftrightarrow> m = Uploading k)"
  unfolding names_in_def by blast

lemma main_at_file:
  assumes run: "main env mf names = Some (Inr s)" and dist: "distinct names"
    and n: "n \<in> set names" "\<not> is_temp_or_chunk n"
  obtains ex loaded sb sn where "list_drive_files env = Some (Inr ex)"
    and "load_drive_urls mf = Inr loaded"
    and "sb = state_before env ex loaded names n"
    and "sn = sync_file env ex sb n"
    and "drive_urls sb n = loaded n"
    and "names_in (printed sb) n = {}"
    and "FilesCreate n \<notin> set (calls sb)"
    and "drive_urls s n = drive_urls sn n"
    and "names_in (printed s) n = names_in (printed sn) n"
    and "FilesCreate n \<in> set (calls s) \<longleftrightarrow> FilesCreate n \<in> set (calls sn)"
    and "set (calls sn) \<subseteq> set (calls s)"
    and "set (printed sn) \<subseteq> set (printed s)"
proof -
  let ?s0 = "\<lparr>drive_urls = loaded, uploaded_count = 0, calls = [], printed = []\<rparr>"
  from run obtain ex loaded where l: "list_drive_files env = Some (Inr ex)"
    and ld: "load_drive_urls mf = Inr loaded"
    and s: "s = sync_files env ex
               \<lparr>drive_urls = loaded, uploaded_count = 0, calls = [], printed = []\<rparr>
               (local_mp3s names)"
    by (rule main_result)
  let ?s0 = "\<lparr>drive_urls = loaded, uploaded_count = 0, calls = [], printed = []\<rparr>"
  let ?L = "local_mp3s names"
  let ?pre = "takeWhile (\<lambda>m. m \<noteq> n) ?L" and ?post = "tl (dropWhile (\<lambda>m. m \<noteq> n) ?L)"
  have dL: "distinct ?L" using dist by (simp add: local_mp3s_filter)
  have nL: "n \<in> set ?L" using n by (simp add: local_mp3s_filter)
  from split_at_name [OF dL nL] have L: "?L = ?pre @ n # ?post"
    and pre: "n \<notin> set ?pre" and post: "n \<notin> set ?post" by blast+
  define sb where "sb = state_before env ex loaded names n"
  define sn where "sn = sync_file env ex sb n"
  have sb: "sb = sync_files env ex ?s0 ?pre" by (simp add: sb_def state_before_def)
  have "sync_files env ex ?s0 ?L = sync_files env ex ?s0 (?pre @ n # ?post)"
    using L by simp
  then have s': "s = sync_files env ex sn ?post"
    by (simp add: s sync_files_append sync_files_Cons sb sn_def)
  have 1: "drive_urls sb n = loaded n"
    unfolding sb using sync_files_other [OF pre, of env ex ?s0] by simp
  have 2: "names_in (printed sb) n = {}"
    unfolding sb using sync_files_names_in [OF pre, of env ex ?s0] by (simp add: names_in_Nil)
  have 3: "FilesCreate n \<notin> set (calls sb)"
    unfolding sb using sync_files_creates [of n env ex ?s0 ?pre] pre by auto
  have 4: "drive_urls s n = drive_urls sn n"
    unfolding s' by (rule sync_files_other [OF post])
  have 5: "names_in (printed s) n = names_in (printed sn) n"
    unfolding s' by (rule sync_files_names_in [OF post])
  have 7: "set (calls sn) \<subseteq> set (calls s)" unfolding s' by (rule sync_files_calls_mono)
  have 8: "set (printed sn) \<subseteq> set (printed s)" unfolding s' by (rule sync_files_printed)
  have 6: "FilesCreate n \<in> set (calls s) \<longleftrightarrow> FilesCreate n \<in> set (calls sn)"
    using sync_files_creates [of n env ex sn ?post] post 7 unfolding s' by auto
  from that [OF l ld sb_def sn_def 1 2 3 4 5 6 7 8] show ?thesis .
qed

text \<open>
  Claim C4, amended. Take a run of the sync agent that reaches the save, and a local file
  that the name filter keeps (the names of a directory are distinct). Exactly one of
  three branches is taken for it, in this order. If the name is in the remote listing,
  the listed link is in the saved mapping, over any previously saved value, and nothing is
  uploaded. Else if the name is a key of the previously saved mapping, its entry is saved
  as it was and nothing is uploaded. Else an upload is attempted: when opening the file,
  creating it and granting \<open>anyone\<close> the role \<open>reader\<close> all succeed, the file is uploaded,
  the permission is granted and the download link of the new file id is saved; when the
  upload raises, the error is printed and no entry is saved for the name.
\<close>

theorem main_three_branches:
  assumes run: "main env mf names = Some (Inr s)" and dist: "distinct names"
    and n: "n \<in> set names" "\<not> is_temp_or_chunk n"
  shows "\<exists>ex loaded. list_drive_files env = Some (Inr ex) \<and> load_drive_urls mf = Inr loaded
    \<and> (\<forall>link. ex n = Some link \<longrightarrow>
          drive_urls s n = Some link \<and> FilesCreate n \<notin> set (calls s)
          \<and> AlreadyOnDrive n \<in> set (printed s) \<and> AlreadyMapped n \<notin> set (printed s)
          \<and> Uploading n \<notin> set (printed s))
    \<and> (\<forall>u. ex n = None \<and> loaded n = Some u \<longrightarrow>
          drive_urls s n = Some u \<and> FilesCreate n \<notin> set (calls s)
          \<and> AlreadyMapped n \<in> set (printed s) \<and> AlreadyOnDrive n \<notin> set (printed s)
          \<and> Uploading n \<notin> set (printed s))
    \<and> (ex n = None \<and> loaded n = None \<longrightarrow>
          Uploading n \<in> set (printed s) \<and> AlreadyOnDrive n \<notin> set (printed s)
          \<and> AlreadyMapped n \<notin> set (printed s)
          \<and> (\<forall>fid. media_file env n = None
                \<and> files_create env (calls (state_before env ex loaded names n)) n = Inr fid
                \<and> permissions_create env
                      (calls (state_before env ex loaded names n) @ [FilesCreate n]) fid = None \<longrightarrow>
                drive_urls s n = Some (download_link fid)
                \<and> FilesCreate n \<in> set (calls s)
                \<and> PermissionsCreate fid ''anyone'' ''reader'' \<in> set (calls s))
          \<and> (\<forall>e. fst (upload_file_to_drive env (calls (state_before env ex loaded names n)) n)
                  = Inl e \<longrightarrow>
                drive_urls s n = None \<and> UploadError e \<in> set (printed s)))"
proof -
  from run dist n obtain ex loaded sb sn where l: "list_drive_files env = Some (Inr ex)"
    and ld: "load_drive_urls mf = Inr loaded"
    and sb: "sb = state_before env ex loaded names n"
    and sn: "sn = sync_file env ex sb n"
    and b1: "drive_urls sb n = loaded n"
    and b2: "names_in (printed sb) n = {}"
    and b3: "FilesCreate n \<notin> set (calls sb)"
    and a1: "drive_urls s n = drive_urls sn n"
    and a2: "names_in (printed s) n = names_in (printed sn) n"
    and a3: "FilesCreate n \<in> set (calls s) \<longleftrightarrow> FilesCreate n \<in> set (calls sn)"
    and a4: "set (calls sn) \<subseteq> set (calls s)"
    and a5: "set (printed sn) \<subseteq> set (printed s)"
    by (rule main_at_file)
  have listed: "drive_urls s n = Some link \<and> FilesCreate n \<notin> set (calls s)
          \<and> AlreadyOnDrive n \<in> set (printed s) \<and> AlreadyMapped n \<notin> set (printed s)
          \<and> Uploading n \<notin> set (printed s)" if h: "ex n = Some link" for link
  proof -
    from sync_file_listed [where ex = ex and n = n and env = env and s = sb, OF h]
    have "drive_urls sn n = Some link" and c: "calls sn = calls sb"
      and "names_in (printed sn) n = {AlreadyOnDrive n}"
      by (simp_all add: sn b2)
    with a2 have "names_in (printed s) n = {AlreadyOnDrive n}" by simp
    from names_in_only [OF this] have "AlreadyOnDrive n \<in> set (printed s)"
      "AlreadyMapped n \<notin> set (printed s)" "Uploading n \<notin> set (printed s)" by simp_all
    moreover have "drive_urls s n = Some link" using a1 \<open>drive_urls sn n = Some link\<close> by simp
    moreover have "FilesCreate n \<notin> set (calls s)" using a3 c b3 by simp
    ultimately show ?thesis by blast
  qed
  have saved: "drive_urls s n = Some u \<and> FilesCreate n \<notin> set (calls s)
          \<and> AlreadyMapped n \<in> set (printed s) \<and> AlreadyOnDrive n \<notin> set (printed s)
          \<and> Uploading n \<notin> set (printed s)" if h: "ex n = None \<and> loaded n = Some u" for u
  proof -
    from h b1 have m: "drive_urls sb n = Some u" and e: "ex n = None" by simp_all
    from sync_file_saved [where ex = ex and n = n and env = env and s = sb, OF e m]
    have "drive_urls sn n = Some u" and c: "calls sn = calls sb"
      and "names_in (printed sn) n = {AlreadyMapped n}"
      by (simp_all add: sn b2)
    with a2 have "names_in (printed s) n = {AlreadyMapped n}" by simp
    from names_in_only [OF this] have "AlreadyMapped n \<in> set (printed s)"
      "AlreadyOnDrive n \<notin> set (printed s)" "Uploading n \<notin> set (printed s)" by simp_all
    moreover have "drive_urls s n = Some u" using a1 \<open>drive_urls sn n = Some u\<close> by simp
    moreover have "FilesCreate n \<notin> set (calls s)" using a3 c b3 by simp
    ultimately show ?thesis by blast
  qed
  have new: "Uploading n \<in> set (printed s) \<and> AlreadyOnDrive n \<notin> set (printed s)
          \<and> AlreadyMapped n \<notin> set (printed s)
          \<and> (\<forall>fid. media_file env n = None
                \<and> files_create env (calls (state_before env ex loaded names n)) n = Inr fid
                \<and> permissions_create env
                      (calls (state_before env ex loaded names n) @ [FilesCreate n]) fid = None \<longrightarrow>
                drive_urls s n = Some (download_link fid)
                \<and> FilesCreate n \<in> set (calls s)
                \<and> PermissionsCreate fid ''anyone'' ''reader'' \<in> set (calls s))
          \<and> (\<forall>e. fst (upload_file_to_drive env (calls (state_before env ex loaded names n)) n)
                  = Inl e \<longrightarrow>
                drive_urls s n = None \<and> UploadError e \<in> set (printed s))"
    if h: "ex n = None \<and> loaded n = None"
  proof -
    from h b1 have m: "drive_urls sb n = None" and e: "ex n = None" by simp_all
    from sync_file_new [where ex = ex and n = n and env = env and s = sb, OF e m] have "names_in (printed sn) n = {Uploading n}"
      by (simp add: sn b2)
    with a2 have "names_in (printed s) n = {Uploading n}" by simp
    from names_in_only [OF this] have msgs: "Uploading n \<in> set (printed s)"
      "AlreadyOnDrive n \<notin> set (printed s)" "AlreadyMapped n \<notin> set (printed s)" by simp_all
    note step = sync_file_step [where env = env and ex = ex and s = sb and n = n]
    have ok: "drive_urls s n = Some (download_link fid)
                \<and> FilesCreate n \<in> set (calls s)
                \<and> PermissionsCreate fid ''anyone'' ''reader'' \<in> set (calls s)"
      if u: "media_file env n = None
                \<and> files_create env (calls (state_before env ex loaded names n)) n = Inr fid
                \<and> permissions_create env
                      (calls (state_before env ex loaded names n) @ [FilesCreate n]) fid = None"
      for fid
    proof -
      from u e m have "ex n = None \<and> drive_urls sb n = None \<and> media_file env n = None
          \<and> files_create env (calls sb) n = Inr fid
          \<and> permissions_create env (calls sb @ [FilesCreate n]) fid = None"
        by (simp add: sb)
      with step have d: "drive_urls sn = (drive_urls sb)(n \<mapsto> download_link fid)"
        and c: "calls sn = calls sb @ [FilesCreate n, PermissionsCreate fid ''anyone'' ''reader'']"
        unfolding sn by blast+
      from d a1 have "drive_urls s n = Some (download_link fid)" by simp
      moreover from c a4 have "FilesCreate n \<in> set (calls s)"
        "PermissionsCreate fid ''anyone'' ''reader'' \<in> set (calls s)" by auto
      ultimately show ?thesis by blast
    qed
    have bad: "drive_urls s n = None \<and> UploadError e \<in> set (printed s)"
      if u: "fst (upload_file_to_drive env (calls (state_before env ex loaded names n)) n) = Inl e"
      for e
    proof -
      from u e m have "ex n = None \<and> drive_urls sb n = None
          \<and> fst (upload_file_to_drive env (calls sb) n) = Inl e"
        by (simp add: sb)
      with step have d: "drive_urls sn = drive_urls sb"
        and p: "UploadError e \<in> set (printed sn)"
        unfolding sn by blast+
      from d a1 m have "drive_urls s n = None" by simp
      moreover from p a5 have "UploadError e \<in> set (printed s)" by auto
      ultimately show ?thesis by blast
    qed
    from msgs ok bad show ?thesis by blast
  qed
  from l ld listed saved new show ?thesis by blast
qed

lemma failing_listing:
  "list_drive_files failing_sync_env
     = Some (Inr [''a.mp3'' \<mapsto> ''https://drive.google.com/uc?export=download&id=ID1''])"
  unfolding list_drive_files_def
  by (subst list_drive_files_from.simps)
     (simp add: failing_sync_env_def example_sync_env_def add_page_files_def download_link_def)

lemma failing_service: "get_drive_service failing_sync_env = Inr ()"
  by (simp add: get_drive_service_def failing_sync_env_def example_sync_env_def)

text \<open>
  The claim C4 as stated fails when the upload raises: \<open>b.mp3\<close> is neither in the listing
  nor in the saved mapping, the create call is made and refused, and the run saves a
  mapping without an entry for it.
\<close>

theorem upload_failure_counterexample:
  "\<not> is_temp_or_chunk ''b.mp3''
   \<and> list_drive_files failing_sync_env
       = Some (Inr [''a.mp3'' \<mapsto> ''https://drive.google.com/uc?export=download&id=ID1''])
   \<and> [''a.mp3'' \<mapsto> ''https://drive.google.com/uc?export=download&id=ID1''] ''b.mp3'' = None
   \<and> load_drive_urls None = Inr Map.empty
   \<and> main failing_sync_env None [''b.mp3'']
       = Some (Inr \<lparr>drive_urls = Map.empty, uploaded_count = 0, calls = [FilesCreate ''b.mp3''],
                    printed = [Uploading ''b.mp3'', UploadError HttpError]\<rparr>)"
proof -
  have nt: "\<not> is_temp_or_chunk ''b.mp3''" by code_simp
  have loc: "local_mp3s [''b.mp3''] = [''b.mp3'']" by code_simp
  have m: "main failing_sync_env None [''b.mp3'']
       = Some (Inr (sync_files failing_sync_env
            [''a.mp3'' \<mapsto> ''https://drive.google.com/uc?export=download&id=ID1'']
            \<lparr>drive_urls = Map.empty, uploaded_count = 0, calls = [], printed = []\<rparr> [''b.mp3'']))"
    by (simp add: main_def failing_service failing_listing load_drive_urls_def loc)
  have "sync_files failing_sync_env
            [''a.mp3'' \<mapsto> ''https://drive.google.com/uc?export=download&id=ID1'']
            \<lparr>drive_urls = Map.empty, uploaded_count = 0, calls = [], printed = []\<rparr> [''b.mp3'']
       = \<lparr>drive_urls = Map.empty, uploaded_count = 0, calls = [FilesCreate ''b.mp3''],
                    printed = [Uploading ''b.mp3'', UploadError HttpError]\<rparr>"
    by (simp add: sync_files_def sync_file_def upload_file_to_drive_def failing_sync_env_def
        example_sync_env_def)
  with m have "main failing_sync_env None [''b.mp3'']
       = Some (Inr \<lparr>drive_urls = Map.empty, uploaded_count = 0, calls = [FilesCreate ''b.mp3''],
                    printed = [Uploading ''b.mp3'', UploadError HttpError]\<rparr>)"
    by simp
  with nt show ?thesis by (simp add: failing_listing load_drive_urls_def)
qed

text \<open>
  A run over a listed file with a stale saved link, a file known only to the saved mapping
  and a new file whose upload succeeds; and a run in which the upload of the new file
  is refused.
\<close>

theorem main_three_branches_witness:
  "(case main example_sync_env
           (Some (Inr [''old.mp3'' \<mapsto> ''https://example.org/old'',
                       ''a.mp3'' \<mapsto> ''https://stale.example/0'']))
           [''a.mp3'', ''old.mp3'', ''b.mp3''] of
      Some (Inr s) \<Rightarrow>
        drive_urls s ''a.mp3'' = Some ''https://drive.google.com/uc?export=download&id=ID1''
        \<and> drive_urls s ''old.mp3'' = Some ''https://example.org/old''
        \<and> drive_urls s ''b.mp3'' = Some ''https://drive.google.com/uc?export=download&id=ID-b.mp3''
        \<and> FilesCreate ''a.mp3'' \<notin> set (calls s) \<and> FilesCreate ''old.mp3'' \<notin> set (calls s)
        \<and> FilesCreate ''b.mp3'' \<in> set (calls s)
        \<and> PermissionsCreate ''ID-b.mp3'' ''anyone'' ''reader'' \<in> set (calls s)
    | _ \<Rightarrow> False)
   \<and> (case main failing_sync_env None [''b.mp3''] of
        Some (Inr s) \<Rightarrow> drive_urls s ''b.mp3'' = None \<and> UploadError HttpError \<in> set (printed s)
      | _ \<Rightarrow> False)"
proof -
  let ?E = "[''a.mp3'' \<mapsto> ''https://drive.google.com/uc?export=download&id=ID1'']"
  let ?M = "[''old.mp3'' \<mapsto> ''https://example.org/old'', ''a.mp3'' \<mapsto> ''https://stale.example/0'']"
  let ?names = "[''a.mp3'', ''old.mp3'', ''b.mp3'']"
  obtain s where m: "main example_sync_env (Some (Inr ?M)) ?names = Some (Inr s)"
    by (simp add: main_def example_service example_listing load_drive_urls_def)
  have dist: "distinct ?names" by simp
  have nta: "\<not> is_temp_or_chunk ''a.mp3''" and nto: "\<not> is_temp_or_chunk ''old.mp3''"
    and ntb: "\<not> is_temp_or_chunk ''b.mp3''" by code_simp+
  have ld: "load_drive_urls (Some (Inr ?M)) = Inr ?M" by (simp add: load_drive_urls_def)
  have a: "drive_urls s ''a.mp3'' = Some ''https://drive.google.com/uc?export=download&id=ID1''
      \<and> FilesCreate ''a.mp3'' \<notin> set (calls s)"
  proof -
    have "''a.mp3'' \<in> set ?names" by simp
    from main_three_branches [OF m dist this nta] obtain ex loaded
      where "list_drive_files example_sync_env = Some (Inr ex)"
        and b: "\<forall>link. ex ''a.mp3'' = Some link \<longrightarrow>
          drive_urls s ''a.mp3'' = Some link \<and> FilesCreate ''a.mp3'' \<notin> set (calls s)
          \<and> AlreadyOnDrive ''a.mp3'' \<in> set (printed s) \<and> AlreadyMapped ''a.mp3'' \<notin> set (printed s)
          \<and> Uploading ''a.mp3'' \<notin> set (printed s)"
      by blast
    then have "ex = ?E" by (simp add: example_listing)
    then have "ex ''a.mp3'' = Some ''https://drive.google.com/uc?export=download&id=ID1''" by simp
    with b show ?thesis by blast
  qed
  have o: "drive_urls s ''old.mp3'' = Some ''https://example.org/old''
      \<and> FilesCreate ''old.mp3'' \<notin> set (calls s)"
  proof -
    have "''old.mp3'' \<in> set ?names" by simp
    from main_three_branches [OF m dist this nto] obtain ex loaded
      where "list_drive_files example_sync_env = Some (Inr ex)"
        and "load_drive_urls (Some (Inr ?M)) = Inr loaded"
        and b: "\<forall>u. ex ''old.mp3'' = None \<and> loaded ''old.mp3'' = Some u \<longrightarrow>
          drive_urls s ''old.mp3'' = Some u \<and> FilesCreate ''old.mp3'' \<notin> set (calls s)
          \<and> AlreadyMapped ''old.mp3'' \<in> set (printed s) \<and> AlreadyOnDrive ''old.mp3'' \<notin> set (printed s)
          \<and> Uploading ''old.mp3'' \<notin> set (printed s)"
      by blast
    then have "ex = ?E" "loaded = ?M" by (simp_all add: example_listing ld)
    then have "ex ''old.mp3'' = None \<and> loaded ''old.mp3'' = Some ''https://example.org/old''"
      by simp
    with b show ?thesis by blast
  qed
  have b: "drive_urls s ''b.mp3'' = Some ''https://drive.google.com/uc?export=download&id=ID-b.mp3''
      \<and> FilesCreate ''b.mp3'' \<in> set (calls s)
      \<and> PermissionsCreate ''ID-b.mp3'' ''anyone'' ''reader'' \<in> set (calls s)"
  proof -
    have "''b.mp3'' \<in> set ?names" by simp
    from main_three_branches [OF m dist this ntb] obtain ex loaded
      where "list_drive_files example_sync_env = Some (Inr ex)"
        and "load_drive_urls (Some (Inr ?M)) = Inr loaded"
        and br: "ex ''b.mp3'' = None \<and> loaded ''b.mp3'' = None \<longrightarrow>
          (\<forall>fid. media_file example_sync_env ''b.mp3'' = None
                \<and> files_create example_sync_env
                      (calls (state_before example_sync_env ex loaded ?names ''b.mp3'')) ''b.mp3''
                    = Inr fid
                \<and> permissions_create example_sync_env
                      (calls (state_before example_sync_env ex loaded ?names ''b.mp3'')
                         @ [FilesCreate ''b.mp3'']) fid = None \<longrightarrow>
                drive_urls s ''b.mp3'' = Some (download_link fid)
                \<and> FilesCreate ''b.mp3'' \<in> set (calls s)
                \<and> PermissionsCreate fid ''anyone'' ''reader'' \<in> set (calls s))"
      by blast
    then have "ex = ?E" "loaded = ?M" by (simp_all add: example_listing ld)
    then have h: "ex ''b.mp3'' = None \<and> loaded ''b.mp3'' = None" by simp
    have u: "media_file example_sync_env ''b.mp3'' = None
                \<and> files_create example_sync_env
                      (calls (state_before example_sync_env ex loaded ?names ''b.mp3'')) ''b.mp3''
                    = Inr ''ID-b.mp3''
                \<and> permissions_create example_sync_env
                      (calls (state_before example_sync_env ex loaded ?names ''b.mp3'')
                         @ [FilesCreate ''b.mp3'']) ''ID-b.mp3'' = None"
      by (simp add: example_sync_env_def)
    from br h u have "drive_urls s ''b.mp3'' = Some (download_link ''ID-b.mp3'')
                \<and> FilesCreate ''b.mp3'' \<in> set (calls s)
                \<and> PermissionsCreate ''ID-b.mp3'' ''anyone'' ''reader'' \<in> set (calls s)"
      by blast
    then show ?thesis by (simp add: download_link_def)
  qed
  have first: "case main example_sync_env (Some (Inr ?M)) ?names of
      Some (Inr s) \<Rightarrow>
        drive_urls s ''a.mp3'' = Some ''https://drive.google.com/uc?export=download&id=ID1''
        \<and> drive_urls s ''old.mp3'' = Some ''https://example.org/old''
        \<and> drive_urls s ''b.mp3'' = Some ''https://drive.google.com/uc?export=download&id=ID-b.mp3''
        \<and> FilesCreate ''a.mp3'' \<notin> set (calls s) \<and> FilesCreate ''old.mp3'' \<notin> set (calls s)
        \<and> FilesCreate ''b.mp3'' \<in> set (calls s)
        \<and> PermissionsCreate ''ID-b.mp3'' ''anyone'' ''reader'' \<in> set (calls s)
    | _ \<Rightarrow> False"
    unfolding m using a o b by simp
  obtain t where mf: "main failing_sync_env None [''b.mp3''] = Some (Inr t)"
    by (simp add: main_def failing_service failing_listing load_drive_urls_def)
  have f: "drive_urls t ''b.mp3'' = None \<and> UploadError HttpError \<in> set (printed t)"
  proof -
    have "distinct [''b.mp3'']" "''b.mp3'' \<in> set [''b.mp3'']" by simp_all
    from main_three_branches [OF mf this ntb] obtain ex loaded
      where "list_drive_files failing_sync_env = Some (Inr ex)"
        and "load_drive_urls None = Inr loaded"
        and br: "ex ''b.mp3'' = None \<and> loaded ''b.mp3'' = None \<longrightarrow>
          (\<forall>e. fst (upload_file_to_drive failing_sync_env
                       (calls (state_before failing_sync_env ex loaded [''b.mp3''] ''b.mp3'')) ''b.mp3'')
                  = Inl e \<longrightarrow>
                drive_urls t ''b.mp3'' = None \<and> UploadError e \<in> set (printed t))"
      by blast
    then have "ex = ?E" "loaded = Map.empty" by (simp_all add: failing_listing load_drive_urls_def)
    then have h: "ex ''b.mp3'' = None \<and> loaded ''b.mp3'' = None" by simp
    have "fst (upload_file_to_drive failing_sync_env
                       (calls (state_before failing_sync_env ex loaded [''b.mp3''] ''b.mp3'')) ''b.mp3'')
                  = Inl HttpError"
      by (simp add: upload_file_to_drive_def failing_sync_env_def example_sync_env_def)
    with br h show ?thesis by blast
  qed
  have second: "case main failing_sync_env None [''b.mp3''] of
        Some (Inr s) \<Rightarrow> drive_urls s ''b.mp3'' = None \<and> UploadError HttpError \<in> set (printed s)
      | _ \<Rightarrow> False"
    unfolding mf using f by simp
  from first second show ?thesis by blast
qed

section \<open>A second run of the sync agent\<close>

lemma sync_file_settled_keep:
  "settled ex (drive_urls s) k \<Longrightarrow> settled ex (drive_urls (sync_file env ex s n)) k"
  by (auto simp: settled_def sync_file_def split: option.splits sum.splits prod.splits)

lemma sync_files_settled_keep:
  "settled ex (drive_urls s) k \<Longrightarrow> settled ex (drive_urls (sync_files env ex s ns)) k"
  by (induction ns arbitrary: s) (simp_all add: sync_files_Nil sync_files_Cons sync_file_settled_keep)

lemma sync_file_settles:
  "settled ex (drive_urls (sync_file env ex s n)) n
   \<or> (\<exists>e. UploadError e \<in> set (printed (sync_file env ex s n)))"
  by (auto simp: settled_def sync_file_def split: option.splits sum.splits prod.splits)

lemma sync_files_settles:
  assumes "\<forall>e. UploadError e \<notin> set (printed (sync_files env ex s ns))"
  shows "\<forall>n \<in> set ns. settled ex (drive_urls (sync_files env ex s ns)) n"
  using assms
proof (induction ns arbitrary: s)
  case Nil
  show ?case by simp
next
  case (Cons n ns)
  let ?s = "sync_file env ex s n"
  from Cons.prems have noerr: "\<forall>e. UploadError e \<notin> set (printed (sync_files env ex ?s ns))"
    by (simp add: sync_files_Cons)
  then have rest: "\<forall>k \<in> set ns. settled ex (drive_urls (sync_files env ex ?s ns)) k"
    by (rule Cons.IH)
  from noerr sync_files_printed [of ?s env ex ns]
  have "\<forall>e. UploadError e \<notin> set (printed ?s)" by blast
  with sync_file_settles [of ex env s n] have "settled ex (drive_urls ?s) n" by blast
  then have "settled ex (drive_urls (sync_files env ex ?s ns)) n"
    by (rule sync_files_settled_keep)
  with rest show ?case by (simp add: sync_files_Cons)
qed

lemma sync_file_noop:
  assumes "settled ex (drive_urls s) n"
  shows "drive_urls (sync_file env ex s n) = drive_urls s
    \<and> calls (sync_file env ex s n) = calls s
    \<and> uploaded_count (sync_file env ex s n) = uploaded_count s"
proof (cases "ex n")
  case None
  with assms obtain u where "drive_urls s n = Some u" by (auto simp: settled_def)
  with None show ?thesis by (simp add: sync_file_def)
next
  case (Some link)
  with assms have "drive_urls s n = Some link" by (simp add: settled_def)
  then have "(drive_urls s)(n \<mapsto> link) = drive_urls s" by (rule map_upd_triv)
  with Some show ?thesis by (simp add: sync_file_def)
qed

lemma sync_files_noop:
  "\<forall>n \<in> set ns. settled ex (drive_urls s) n \<Longrightarrow>
   drive_urls (sync_files env ex s ns) = drive_urls s
    \<and> calls (sync_files env ex s ns) = calls s
    \<and> uploaded_count (sync_files env ex s ns) = uploaded_count s"
proof (induction ns arbitrary: s)
  case Nil
  show ?case by (simp add: sync_files_Nil)
next
  case (Cons n ns)
  let ?s = "sync_file env ex s n"
  from Cons.prems have "settled ex (drive_urls s) n" by simp
  from sync_file_noop [OF this, of env]
  have eq: "drive_urls ?s = drive_urls s" "calls ?s = calls s" "uploaded_count ?s = uploaded_count s"
    by simp_all
  from Cons.prems eq have "\<forall>k \<in> set ns. settled ex (drive_urls ?s) k" by simp
  from Cons.IH [OF this] eq show ?case by (simp add: sync_files_Cons)
qed

text \<open>
  A file that is uploaded and then listed gets the same link both times: both are the
  download link of its id.
\<close>

lemma uploaded_file_listed_under_same_link:
  assumes "fst (upload_file_to_drive env cs n) = Inr link"
  shows "\<exists>fid. files_create env cs n = Inr fid \<and> add_page_files [(fid, n)] files n = Some link"
  using assms by (auto simp: upload_succeeds_iff add_page_files_def)

lemma settled_grown:
  assumes "settled ex1 m n" and "ex2 n = ex1 n \<or> (ex1 n = None \<and> ex2 n = m n)"
  shows "settled ex2 m n"
  using assms by (auto simp: settled_def split: option.splits)

text \<open>
  Claim C5. Take a run of the sync agent that reaches the save and in which no upload
  raised, and run the agent again on the mapping it saved, with the same local files. The
  remote listing of the second run is that of the first, except that a local file that was
  not listed may now be listed under the link the first run saved for it, as a file that the
  first run uploaded is. The second run reaches the save, uploads no file and makes no
  writing call at all, and saves a mapping equal to the one saved by the first.
\<close>

theorem second_run_idempotent:
  assumes first: "main env1 mf names = Some (Inr s1)"
    and success: "\<forall>e. UploadError e \<notin> set (printed s1)"
    and listing1: "list_drive_files env1 = Some (Inr ex1)"
    and listing2: "list_drive_files env2 = Some (Inr ex2)"
    and grown: "\<forall>n \<in> set (local_mp3s names).
                  ex2 n = ex1 n \<or> (ex1 n = None \<and> ex2 n = drive_urls s1 n)"
    and service: "get_drive_service env2 = Inr ()"
  shows "\<exists>s2. main env2 (Some (Inr (drive_urls s1))) names = Some (Inr s2)
           \<and> uploaded_count s2 = 0 \<and> calls s2 = [] \<and> drive_urls s2 = drive_urls s1"
proof -
  from first obtain ex loaded where l1: "list_drive_files env1 = Some (Inr ex)"
    and s1: "s1 = sync_files env1 ex
               \<lparr>drive_urls = loaded, uploaded_count = 0, calls = [], printed = []\<rparr>
               (local_mp3s names)"
    by (rule main_result)
  from l1 listing1 have ex: "ex = ex1" by simp
  let ?s0 = "\<lparr>drive_urls = drive_urls s1, uploaded_count = 0, calls = [], printed = []\<rparr>"
  let ?s2 = "sync_files env2 ex2 ?s0 (local_mp3s names)"
  have m2: "main env2 (Some (Inr (drive_urls s1))) names = Some (Inr ?s2)"
    by (simp add: main_def service listing2 load_drive_urls_def)
  from success have "\<forall>n \<in> set (local_mp3s names). settled ex (drive_urls s1) n"
    unfolding s1 by (rule sync_files_settles)
  with grown have "\<forall>n \<in> set (local_mp3s names). settled ex2 (drive_urls s1) n"
    unfolding ex by (blast intro: settled_grown)
  then have "\<forall>n \<in> set (local_mp3s names). settled ex2 (drive_urls ?s0) n" by simp
  from sync_files_noop [OF this, of env2]
  have "uploaded_count ?s2 = 0 \<and> calls ?s2 = [] \<and> drive_urls ?s2 = drive_urls s1" by simp
  with m2 show ?thesis by blast
qed

lemma grown_listing:
  "list_drive_files grown_sync_env
     = Some (Inr [''a.mp3'' \<mapsto> ''https://drive.google.com/uc?export=download&id=ID1'',
                  ''b.mp3'' \<mapsto> ''https://drive.google.com/uc?export=download&id=ID-b.mp3''])"
  unfolding list_drive_files_def
  by (subst list_drive_files_from.simps)
     (simp add: grown_sync_env_def example_sync_env_def add_page_files_def download_link_def)

lemma grown_service: "get_drive_service grown_sync_env = Inr ()"
  by (simp add: get_drive_service_def grown_sync_env_def example_sync_env_def)

text \<open>
  A first run that finds one file listed and uploads another; then a second run on a
  listing that shows the uploaded file, and a second run on the listing as it was.
\<close>

theorem second_run_idempotent_witness:
  "(case main example_sync_env None [''a.mp3'', ''b.mp3'', ''c.temp.mp3''] of
      Some (Inr s1) \<Rightarrow>
        (\<forall>e. UploadError e \<notin> set (printed s1)) \<and> uploaded_count s1 = 1
        \<and> (case main grown_sync_env (Some (Inr (drive_urls s1)))
                   [''a.mp3'', ''b.mp3'', ''c.temp.mp3''] of
              Some (Inr s2) \<Rightarrow>
                uploaded_count s2 = 0 \<and> calls s2 = [] \<and> drive_urls s2 = drive_urls s1
            | _ \<Rightarrow> False)
        \<and> (case main example_sync_env (Some (Inr (drive_urls s1)))
                   [''a.mp3'', ''b.mp3'', ''c.temp.mp3''] of
              Some (Inr s2) \<Rightarrow>
                uploaded_count s2 = 0 \<and> calls s2 = [] \<and> drive_urls s2 = drive_urls s1
            | _ \<Rightarrow> False)
    | _ \<Rightarrow> False)"
proof -
  let ?names = "[''a.mp3'', ''b.mp3'', ''c.temp.mp3'']"
  let ?ex = "[''a.mp3'' \<mapsto> ''https://drive.google.com/uc?export=download&id=ID1'']"
  let ?ex2 = "[''a.mp3'' \<mapsto> ''https://drive.google.com/uc?export=download&id=ID1'',
               ''b.mp3'' \<mapsto> ''https://drive.google.com/uc?export=download&id=ID-b.mp3'']"
  let ?s1 = "sync_files example_sync_env ?ex
               \<lparr>drive_urls = Map.empty, uploaded_count = 0, calls = [], printed = []\<rparr>
               (local_mp3s ?names)"
  have loc: "local_mp3s ?names = [''a.mp3'', ''b.mp3'']" by code_simp
  have m1: "main example_sync_env None ?names = Some (Inr ?s1)"
    by (simp add: main_def example_service example_listing load_drive_urls_def)
  have pr: "printed ?s1 = [AlreadyOnDrive ''a.mp3'', Uploading ''b.mp3'',
              Uploaded ''https://drive.google.com/uc?export=download&id=ID-b.mp3'']"
    and cnt: "uploaded_count ?s1 = 1"
    and du: "drive_urls ?s1 ''b.mp3''
               = Some ''https://drive.google.com/uc?export=download&id=ID-b.mp3''"
    unfolding loc
    by (simp_all add: sync_files_def sync_file_def upload_file_to_drive_def example_sync_env_def
        download_link_def)
  from pr have ok: "\<forall>e. UploadError e \<notin> set (printed ?s1)" by simp
  have grown: "\<forall>n \<in> set (local_mp3s ?names).
                  ?ex2 n = ?ex n \<or> (?ex n = None \<and> ?ex2 n = drive_urls ?s1 n)"
    using du unfolding loc by simp
  have same: "\<forall>n \<in> set (local_mp3s ?names).
                  ?ex n = ?ex n \<or> (?ex n = None \<and> ?ex n = drive_urls ?s1 n)"
    by simp
  from second_run_idempotent [OF m1 ok example_listing grown_listing grown grown_service]
  obtain s2 where "main grown_sync_env (Some (Inr (drive_urls ?s1))) ?names = Some (Inr s2)"
    and "uploaded_count s2 = 0 \<and> calls s2 = [] \<and> drive_urls s2 = drive_urls ?s1"
    by blast
  then have g: "case main grown_sync_env (Some (Inr (drive_urls ?s1))) ?names of
              Some (Inr s2) \<Rightarrow>
                uploaded_count s2 = 0 \<and> calls s2 = [] \<and> drive_urls s2 = drive_urls ?s1
            | _ \<Rightarrow> False"
    by simp
  from second_run_idempotent [OF m1 ok example_listing example_listing same example_service]
  obtain s3 where "main example_sync_env (Some (Inr (drive_urls ?s1))) ?names = Some (Inr s3)"
    and "uploaded_count s3 = 0 \<and> calls s3 = [] \<and> drive_urls s3 = drive_urls ?s1"
    by blast
  then have u: "case main example_sync_env (Some (Inr (drive_urls ?s1))) ?names of
              Some (Inr s2) \<Rightarrow>
                uploaded_count s2 = 0 \<and> calls s2 = [] \<and> drive_urls s2 = drive_urls ?s1
            | _ \<Rightarrow> False"
    by simp
  show ?thesis unfolding m1 using ok cnt g u by simp
qed

section \<open>The order of the episodes\<close>

text \<open>
  The sort of line 137 puts the episodes in descending order of the text of their
  publication date, and keeps episodes of equal text in the order of the loop, which is
  the order of the file names.
\<close>

lemma sort_reverse_descending: "sorted (rev (map k (sort_reverse k xs)))"
  by (simp add: sort_reverse_def rev_map)

lemma sort_reverse_stable:
  "filter (\<lambda>x. k x = c) (sort_reverse k xs) = filter (\<lambda>x. k x = c) xs"
proof -
  have "filter (\<lambda>x. k x = c) (sort_reverse k xs)
          = rev (filter (\<lambda>x. k x = c) (sort_key k (rev xs)))"
    by (simp add: sort_reverse_def rev_filter)
  also have "\<dots> = rev (filter (\<lambda>x. k x = c) (rev xs))"
    by (simp only: sort_key_stable)
  also have "\<dots> = filter (\<lambda>x. k x = c) xs"
    by (simp add: rev_filter)
  finally show ?thesis .
qed

lemma build_episodes_descending:
  assumes "build_episodes env urls files = Inr eps"
  shows "sorted (rev (map ep_pub_date eps))"
proof -
  from assms obtain eps0 where "eps = sort_reverse ep_pub_date eps0"
    by (auto simp: build_episodes_def split: sum.splits)
  then show ?thesis by (simp add: sort_reverse_descending)
qed

lemma sorted_paths_by_name: "sorted (map path_name (sorted_paths files))"
  by (simp add: sorted_paths_def)

text \<open>
  Claim C1 at two files: \<open>old.mp3\<close>, modified on Thursday 1 January 2026, and \<open>new.mp3\<close>,
  modified a day later. The sort compares the texts of the dates, and \<open>Thu\<close> is greater than
  \<open>Fri\<close>: the item of the older file comes first in the feed.
\<close>

theorem older_episode_listed_first:
  "st_mtime \<lparr>path_name = ''old.mp3'', st_mtime = 1767268800\<rparr>
     < st_mtime \<lparr>path_name = ''new.mp3'', st_mtime = 1767355200\<rparr>
   \<and> map (child_text ''pubDate'')
       (case generate_rss example_gen_env None
          [\<lparr>path_name = ''new.mp3'', st_mtime = 1767355200\<rparr>,
           \<lparr>path_name = ''old.mp3'', st_mtime = 1767268800\<rparr>] of
          Inr rss \<Rightarrow> feed_items rss | Inl e \<Rightarrow> [])
     = [Some ''Thu, 01 Jan 2026 12:00:00  +0000'', Some ''Fri, 02 Jan 2026 12:00:00  +0000'']
   \<and> map (child_text ''guid'')
       (case generate_rss example_gen_env None
          [\<lparr>path_name = ''new.mp3'', st_mtime = 1767355200\<rparr>,
           \<lparr>path_name = ''old.mp3'', st_mtime = 1767268800\<rparr>] of
          Inr rss \<Rightarrow> feed_items rss | Inl e \<Rightarrow> [])
     = [Some ''https://jaxondigital.github.io/jaxon-strategy-feed/audio/old.mp3'',
        Some ''https://jaxondigital.github.io/jaxon-strategy-feed/audio/new.mp3'']"
  by code_simp

section \<open>The publication date\<close>

text \<open>
  The calendar of the model at the epoch, the second before it and two leap days; every
  publication date ends with the offset \<open>+0000\<close>.
\<close>

lemma pub_date_examples:
  "pub_date_of example_gen_env 0 = Inr ''Thu, 01 Jan 1970 00:00:00  +0000''"
  "pub_date_of example_gen_env (- 1) = Inr ''Wed, 31 Dec 1969 23:59:59  +0000''"
  "pub_date_of example_gen_env 951782400 = Inr ''Tue, 29 Feb 2000 00:00:00  +0000''"
  "pub_date_of example_gen_env 1709210096 = Inr ''Thu, 29 Feb 2024 12:34:56  +0000''"
  by code_simp+

lemma pub_date_offset:
  assumes "pub_date_of env t = Inr s"
  shows "suffix '' +0000'' s"
proof -
  from assms obtain dt where s: "s = (if \<not> suffix '' +0000'' (strftime dt)
                                      then strftime dt @ '' +0000'' else strftime dt)"
    by (auto simp: pub_date_of_def Let_def split: sum.splits)
  show ?thesis unfolding s by (simp add: suffix_def)
qed

text \<open>
  Claim C2 at the instant 1767268800 (1 January 2026, 12:00:00 UTC): on a host five hours
  west of UTC the publication date shows the local time 07:00:00 with the offset
  \<open>+0000\<close>; on a host on UTC it shows 12:00:00.
\<close>

theorem local_time_labelled_utc:
  "pub_date_of (example_gen_env\<lparr>utcoffset := (\<lambda>t. - 18000)\<rparr>) 1767268800
     = Inr ''Thu, 01 Jan 2026 07:00:00  +0000''
   \<and> pub_date_of (example_gen_env\<lparr>utcoffset := (\<lambda>t. 0)\<rparr>) 1767268800
     = Inr ''Thu, 01 Jan 2026 12:00:00  +0000''"
  by code_simp

end
